theory Spec2Isabelle
  imports Complex_Main "HOL-Library.Monad_Syntax" "HOL-Library.Multiset"
begin

section \<open>Multilayer perceptrons in gluon: the notebook \<open>mlp-gluon.ipynb\<close>\<close>

text \<open>
  The notebook is a script over the MXNet/gluon framework. The script's own statements
  are embedded as they are written; each framework call it makes (\<open>Dense\<close>,
  \<open>nd.relu\<close>, \<open>Sequential\<close>, \<open>DataLoader\<close>, \<open>SoftmaxCrossEntropyLoss\<close>,
  \<open>Trainer.step\<close>, \<open>mx.metric.Accuracy\<close>) is embedded by the documented behaviour of
  that call. Conventions:
  \<^item> an NDArray of shape \<open>(n, k)\<close> is a list of \<open>n\<close> rows of length \<open>k\<close>; an NDArray of
    shape \<open>(n,)\<close> is a list of length \<open>n\<close>;
  \<^item> float32 values are idealised as real numbers: every operation returns its exact
    result, and the rounding of the float32 kernels is not modelled;
  \<^item> an exception raised by the framework (a shape mismatch, an index out of range)
    halts the script: the operation returns \<open>None\<close>;
  \<^item> automatic differentiation, the pseudo-random permutations of the shuffling sampler
    and the pseudo-random draws of the initializer are parameters of the model.
\<close>

subsection \<open>Constants of the script\<close>

definition batch_size :: nat where "batch_size = 64"
definition num_inputs :: nat where "num_inputs = 784"
definition num_outputs :: nat where "num_outputs = 10"
definition num_examples :: nat where "num_examples = 60000"
definition num_hidden :: nat where "num_hidden = 64"
definition epochs :: nat where "epochs = 10"
definition learning_rate :: real where "learning_rate = 1 / 100"

type_synonym vec = "real list"
type_synonym mat = "real list list"

subsection \<open>The transform applied to every sample\<close>

text \<open>
  \<^verbatim>\<open>def transform(data, label):
    return data.astype(np.float32)/255, label.astype(np.float32)\<close>
  A raw image is the list of its integer pixel values in row-major order; a raw label is
  an integer.
\<close>

definition transform :: "int list \<Rightarrow> int \<Rightarrow> vec \<times> real" where
  "transform data label = (map (\<lambda>p. real_of_int p / 255) data, real_of_int label)"

subsection \<open>Dense layers\<close>

datatype activation = Relu

text \<open>
  \<open>gluon.nn.Dense(units, activation)\<close> owns a weight matrix of shape
  \<open>(units, in_units)\<close> and a bias vector of shape \<open>(units,)\<close>.
\<close>

record Dense =
  units :: nat
  activation :: "activation option"
  weight :: mat
  bias :: vec

definition dot :: "vec \<Rightarrow> vec \<Rightarrow> real" where
  "dot u v = sum_list (map2 (*) u v)"

text \<open>
  \<open>FullyConnected(x, weight, bias, num_hidden)\<close> computes \<open>x * weight\<^sup>T + bias\<close> row by
  row. Shape inference fails unless the weight has \<open>num_hidden\<close> rows, the bias
  \<open>num_hidden\<close> entries, and every row of the weight the width of the rows of \<open>x\<close>.
\<close>

definition FullyConnected :: "mat \<Rightarrow> mat \<Rightarrow> vec \<Rightarrow> nat \<Rightarrow> mat option" where
  "FullyConnected x w b n =
     (if length w = n \<and> length b = n \<and> list_all (\<lambda>r. list_all (\<lambda>wr. length wr = length r) w) x
      then Some (map (\<lambda>r. map2 (\<lambda>wr bi. dot r wr + bi) w b) x)
      else None)"

definition relu :: "mat \<Rightarrow> mat" where
  "relu x = map (map (max 0)) x"

definition apply_activation :: "activation option \<Rightarrow> mat \<Rightarrow> mat" where
  "apply_activation a x = (case a of None \<Rightarrow> x | Some Relu \<Rightarrow> relu x)"

text \<open>
  \<open>Dense.__call__\<close>: the affine transform, then the layer's activation when it has one.
\<close>

definition Dense_call :: "Dense \<Rightarrow> mat \<Rightarrow> mat option" where
  "Dense_call d x =
     map_option (apply_activation (activation d)) (FullyConnected x (weight d) (bias d) (units d))"

subsection \<open>The hand-written block\<close>

text \<open>
  \<^verbatim>\<open>class MLP(gluon.Block):
    def __init__(self, **kwargs):
        ...
            self.dense0 = gluon.nn.Dense(64)
            self.dense1 = gluon.nn.Dense(64)
            self.dense2 = gluon.nn.Dense(10)
    def forward(self, x):
        x = nd.relu(self.dense0(x))
        x = nd.relu(self.dense1(x))
        x = self.dense2(x)
        return x\<close>
  The constructor is given the parameter values that initialisation assigns to the
  three layers.
\<close>

record MLP =
  dense0 :: Dense
  dense1 :: Dense
  dense2 :: Dense

definition MLP_init :: "mat \<Rightarrow> vec \<Rightarrow> mat \<Rightarrow> vec \<Rightarrow> mat \<Rightarrow> vec \<Rightarrow> MLP" where
  "MLP_init w0 b0 w1 b1 w2 b2 =
     \<lparr>dense0 = \<lparr>units = 64, activation = None, weight = w0, bias = b0\<rparr>,
      dense1 = \<lparr>units = 64, activation = None, weight = w1, bias = b1\<rparr>,
      dense2 = \<lparr>units = 10, activation = None, weight = w2, bias = b2\<rparr>\<rparr>"

definition MLP_forward :: "MLP \<Rightarrow> mat \<Rightarrow> mat option" where
  "MLP_forward self x = do {
     x \<leftarrow> map_option relu (Dense_call (dense0 self) x);
     x \<leftarrow> map_option relu (Dense_call (dense1 self) x);
     x \<leftarrow> Dense_call (dense2 self) x;
     Some x
   }"

subsection \<open>The sequential layer stack\<close>

text \<open>
  \<open>Sequential.forward\<close> feeds the input through the children in the order they were
  added.
  \<^verbatim>\<open>net = gluon.nn.Sequential()
with net.name_scope():
    net.add(gluon.nn.Dense(num_hidden, activation="relu"))
    net.add(gluon.nn.Dense(num_hidden, activation="relu"))
    net.add(gluon.nn.Dense(num_outputs))\<close>
\<close>

type_synonym Sequential = "Dense list"

fun Sequential_forward :: "Sequential \<Rightarrow> mat \<Rightarrow> mat option" where
  "Sequential_forward [] x = Some x"
| "Sequential_forward (block # blocks) x =
     (case Dense_call block x of None \<Rightarrow> None | Some y \<Rightarrow> Sequential_forward blocks y)"

definition net_init :: "mat \<Rightarrow> vec \<Rightarrow> mat \<Rightarrow> vec \<Rightarrow> mat \<Rightarrow> vec \<Rightarrow> Sequential" where
  "net_init w0 b0 w1 b1 w2 b2 =
     [\<lparr>units = num_hidden, activation = Some Relu, weight = w0, bias = b0\<rparr>,
      \<lparr>units = num_hidden, activation = Some Relu, weight = w1, bias = b1\<rparr>,
      \<lparr>units = num_outputs, activation = None, weight = w2, bias = b2\<rparr>]"

text \<open>Shapes: \<open>has_shape n k x\<close> says that \<open>x\<close> is an NDArray of shape \<open>(n, k)\<close>.\<close>

definition has_shape :: "nat \<Rightarrow> nat \<Rightarrow> 'a list list \<Rightarrow> bool" where
  "has_shape n k x = (length x = n \<and> list_all (\<lambda>r. length r = k) x)"

text \<open>
  The parameter shapes of the network on 784 inputs: the shapes the framework allocates
  when the first batch it sees has 784 columns.
\<close>

definition param_shapes :: "mat \<Rightarrow> vec \<Rightarrow> mat \<Rightarrow> vec \<Rightarrow> mat \<Rightarrow> vec \<Rightarrow> bool" where
  "param_shapes w0 b0 w1 b1 w2 b2 =
     (has_shape 64 784 w0 \<and> length b0 = 64 \<and>
      has_shape 64 64 w1 \<and> length b1 = 64 \<and>
      has_shape 10 64 w2 \<and> length b2 = 10)"

subsection \<open>Datasets and data loaders\<close>

text \<open>
  A raw dataset is a list of samples, each an image (its integer pixel values) and an
  integer label. \<open>MNIST(train=..., transform=transform)\<close> applies the script's
  \<open>transform\<close> when a sample is fetched; an index out of range raises.
\<close>

type_synonym raw_dataset = "(int list \<times> int) list"
type_synonym batch = "mat \<times> vec"

definition getitem :: "raw_dataset \<Rightarrow> nat \<Rightarrow> (vec \<times> real) option" where
  "getitem ds idx =
     (if idx < length ds then Some (case ds ! idx of (data, label) \<Rightarrow> transform data label)
      else None)"

record DataLoader =
  dataset :: raw_dataset
  loader_batch_size :: nat
  shuffle :: bool

text \<open>
  \<^verbatim>\<open>train_data = mx.gluon.data.DataLoader(mx.gluon.data.vision.MNIST(train=True, transform=transform),
                                      batch_size, shuffle=True)
test_data = mx.gluon.data.DataLoader(mx.gluon.data.vision.MNIST(train=False, transform=transform),
                                     batch_size, shuffle=False)\<close>
\<close>

definition train_data :: "raw_dataset \<Rightarrow> DataLoader" where
  "train_data mnist_train =
     \<lparr>dataset = mnist_train, loader_batch_size = batch_size, shuffle = True\<rparr>"

definition test_data :: "raw_dataset \<Rightarrow> DataLoader" where
  "test_data mnist_test =
     \<lparr>dataset = mnist_test, loader_batch_size = batch_size, shuffle = False\<rparr>"

text \<open>
  The sampler of a loader: with \<open>shuffle=True\<close> a random sampler, which shuffles the
  indices \<open>0, ..., n-1\<close> afresh for each pass over the data (the shuffled index list
  \<open>perm\<close> is what the pseudo-random generator produced for this pass); with
  \<open>shuffle=False\<close> a sequential sampler.
\<close>

definition sampler :: "DataLoader \<Rightarrow> nat list \<Rightarrow> nat list" where
  "sampler dl perm = (if shuffle dl then perm else [0..<length (dataset dl)])"

text \<open>
  The batch sampler groups the indices into batches of \<open>n\<close>, keeping a last batch that
  is not full:
  \<^verbatim>\<open>for i in self._sampler:
    batch.append(i)
    if len(batch) == self._batch_size:
        yield batch
        batch = []
if batch:
    yield batch\<close>
\<close>

fun batch_sampler :: "nat \<Rightarrow> nat list \<Rightarrow> nat list \<Rightarrow> nat list list" where
  "batch_sampler n batch [] = (if batch \<noteq> [] then [batch] else [])"
| "batch_sampler n batch (i # idxs) =
     (if length (batch @ [i]) = n then (batch @ [i]) # batch_sampler n [] idxs
      else batch_sampler n (batch @ [i]) idxs)"

text \<open>
  The default batchify function stacks the images of a batch into one array and the
  labels into another; stacking arrays of different sizes raises.
\<close>

definition batchify :: "(vec \<times> real) list \<Rightarrow> batch option" where
  "batchify samples =
     (if list_all (\<lambda>s. length (fst s) = length (fst (hd samples))) samples
      then Some (map fst samples, map snd samples)
      else None)"

definition load_batch :: "raw_dataset \<Rightarrow> nat list \<Rightarrow> batch option" where
  "load_batch ds idxs = Option.bind (those (map (getitem ds) idxs)) batchify"

text \<open>One pass over a loader: the list of batches it yields.\<close>

definition DataLoader_iter :: "DataLoader \<Rightarrow> nat list \<Rightarrow> batch list option" where
  "DataLoader_iter dl perm =
     those (map (load_batch (dataset dl)) (batch_sampler (loader_batch_size dl) [] (sampler dl perm)))"

subsection \<open>Reshaping a batch\<close>

text \<open>
  \<open>data.reshape((-1, 784))\<close> regroups the values of the batch, in row-major order,
  into rows of 784; it raises when their number is not a multiple of 784.
\<close>

definition reshape_784 :: "mat \<Rightarrow> mat option" where
  "reshape_784 data =
     (let flat = concat data in
      if length flat mod 784 = 0
      then Some (map (\<lambda>i. take 784 (drop (i * 784) flat)) [0..<length flat div 784])
      else None)"

subsection \<open>Softmax cross-entropy loss\<close>

text \<open>
  \<open>softmax_cross_entropy = gluon.loss.SoftmaxCrossEntropyLoss()\<close>, with its defaults
  (sparse labels, scores that are not yet log-probabilities): one loss value per sample,
  the negated log-softmax of the sample's scores at the position of its label. \<open>pick\<close>
  casts the label to an integer and clips it to the valid positions. The values are the
  exact real results; the float32 kernel rounds them, so that a loss which is zero up to
  rounding can come out slightly negative. No statement below rests on the sign of a
  loss value.
\<close>

definition log_softmax :: "vec \<Rightarrow> vec" where
  "log_softmax v = map (\<lambda>x. x - ln (sum_list (map exp v))) v"

definition astype_int32 :: "real \<Rightarrow> int" where
  "astype_int32 x = (if 0 \<le> x then \<lfloor>x\<rfloor> else \<lceil>x\<rceil>)"

definition pick :: "vec \<Rightarrow> real \<Rightarrow> real option" where
  "pick v idx =
     (if v = [] then None
      else Some (v ! nat (min (max (astype_int32 idx) 0) (int (length v) - 1))))"

definition softmax_cross_entropy :: "mat \<Rightarrow> vec \<Rightarrow> vec option" where
  "softmax_cross_entropy output label =
     (if length output = length label
      then those (map2 (\<lambda>row l. map_option uminus (pick (log_softmax row) l)) output label)
      else None)"

subsection \<open>The accuracy metric\<close>

text \<open>
  \<open>mx.metric.Accuracy\<close> counts, over all updates, the samples seen and the samples
  whose prediction equals the label after both are cast to int32. \<open>get\<close> returns their
  quotient, and not-a-number when no sample has been seen.
\<close>

datatype pyfloat = Float real | NaN

record Accuracy =
  sum_metric :: real
  num_inst :: nat

definition Accuracy_init :: Accuracy where
  "Accuracy_init = \<lparr>sum_metric = 0, num_inst = 0\<rparr>"

definition Accuracy_update :: "vec \<Rightarrow> vec \<Rightarrow> Accuracy \<Rightarrow> Accuracy option" where
  "Accuracy_update preds labels acc =
     (if length labels = length preds
      then Some \<lparr>sum_metric = sum_metric acc +
                     real (length (filter (\<lambda>(p, l). astype_int32 p = astype_int32 l) (zip preds labels))),
                 num_inst = num_inst acc + length preds\<rparr>
      else None)"

definition Accuracy_get :: "Accuracy \<Rightarrow> pyfloat" where
  "Accuracy_get acc =
     (if num_inst acc = 0 then NaN else Float (sum_metric acc / real (num_inst acc)))"

text \<open>\<open>nd.argmax(output, axis=1)\<close>: per row, the position of the first largest score.\<close>

fun argmax_from :: "nat \<Rightarrow> real \<Rightarrow> nat \<Rightarrow> vec \<Rightarrow> nat" where
  "argmax_from best m i [] = best"
| "argmax_from best m i (x # xs) =
     (if m < x then argmax_from i x (Suc i) xs else argmax_from best m (Suc i) xs)"

definition argmax :: "vec \<Rightarrow> real" where
  "argmax v = (case v of [] \<Rightarrow> 0 | x # xs \<Rightarrow> real (argmax_from 0 x 1 xs))"

subsection \<open>The state of the script\<close>

text \<open>
  The objects the script mutates: the parameters of \<open>net\<close>, their gradient arrays, the
  loss accumulator, and the console. Two more components record what the script has
  asked of the framework: how many permutations the shuffling sampler has drawn, and the
  history of calls to the network, the loss, autograd and the trainer.

  \<^verbatim>\<open>net.collect_params().initialize(mx.init.Normal(sigma=.1), ctx=model_ctx)\<close>
  The layers are built without \<open>in_units\<close>, so the width of a weight matrix is not
  known when \<open>initialize\<close> is called. \<open>initialize\<close> allocates the bias vectors, whose
  shape is known, and fills them with zeros; the initialisation of the weights is
  deferred. The first forward pass finishes it: every layer allocates its weight with
  the width of the input it is given and fills it with the initializer's draws. The
  draws are a parameter: \<open>draw l i j\<close> is the value drawn for the entry \<open>(i, j)\<close> of the
  weight of layer \<open>l\<close>. The component \<open>deferred\<close> of the state holds the initializer
  for as long as the weights wait for their first input; the weight of a layer has no
  rows until then.
\<close>

datatype call = Forward nat | Loss nat | Backward | Step nat

record report =
  epoch_no :: nat
  avg_loss :: real
  train_acc :: pyfloat
  test_acc :: pyfloat

type_synonym gradients = "nat \<Rightarrow> (nat \<Rightarrow> nat \<Rightarrow> real) \<times> (nat \<Rightarrow> real)"
type_synonym initializer = "nat \<Rightarrow> nat \<Rightarrow> nat \<Rightarrow> real"

record state =
  net :: Sequential
  deferred :: "initializer option"
  grads :: gradients
  cumulative_loss :: real
  console :: "report list"
  draws :: nat
  calls :: "call list"

text \<open>
  Automatic differentiation is a parameter: for the recorded computation (the network,
  the batch and its labels) it gives, for each layer, the entries of the gradient of the
  summed loss with respect to the layer's weight and bias. Gradient arrays have the
  shapes of their parameters.
\<close>

type_synonym autograd = "Sequential \<Rightarrow> mat \<Rightarrow> vec \<Rightarrow> gradients"

text \<open>
  Finishing the deferred initialisation for an input of \<open>k\<close> columns: layer \<open>l\<close>
  allocates a weight of shape \<open>(units, k)\<close>, and its output, of \<open>units\<close> columns, is
  the input of the next layer.
\<close>

fun finish_deferred_init :: "initializer \<Rightarrow> nat \<Rightarrow> nat \<Rightarrow> Sequential \<Rightarrow> Sequential" where
  "finish_deferred_init draw l k [] = []"
| "finish_deferred_init draw l k (d # ds) =
     d\<lparr>weight := map (\<lambda>i. map (draw l i) [0..<k]) [0..<units d]\<rparr>
       # finish_deferred_init draw (Suc l) (units d) ds"

definition finish_init :: "nat \<Rightarrow> state \<Rightarrow> state" where
  "finish_init k s =
     (case deferred s of
        None \<Rightarrow> s
      | Some draw \<Rightarrow> s\<lparr>net := finish_deferred_init draw 0 k (net s), deferred := None\<rparr>)"

definition in_units_of :: "mat \<Rightarrow> nat" where
  "in_units_of data = (case data of [] \<Rightarrow> 0 | row # rows \<Rightarrow> length row)"

text \<open>
  \<open>net(data)\<close>: the forward pass, which first finishes an initialisation that is still
  deferred.
\<close>

definition net_call :: "mat \<Rightarrow> state \<Rightarrow> (mat \<times> state) option" where
  "net_call data s =
     (let s = finish_init (in_units_of data) s in
      map_option (\<lambda>output. (output, s\<lparr>calls := calls s @ [Forward (length data)]\<rparr>))
        (Sequential_forward (net s) data))"

text \<open>
  The state in which the script enters its training loop: the three layers as
  \<open>net.add\<close> has built them and \<open>initialize\<close> has left them (zero biases, weights
  deferred), nothing accumulated, nothing printed.
\<close>

definition script_state :: "initializer \<Rightarrow> state" where
  "script_state draw =
     \<lparr>net = net_init [] (replicate num_hidden 0) [] (replicate num_hidden 0)
                     [] (replicate num_outputs 0),
      deferred = Some draw, grads = (\<lambda>l. (\<lambda>i j. 0, \<lambda>i. 0)), cumulative_loss = 0,
      console = [], draws = 0, calls = []\<rparr>"

definition backward :: "autograd \<Rightarrow> mat \<Rightarrow> vec \<Rightarrow> state \<Rightarrow> state" where
  "backward ag data label s =
     s\<lparr>grads := ag (net s) data label, calls := calls s @ [Backward]\<rparr>"

subsection \<open>The optimizer\<close>

text \<open>
  \<open>trainer = gluon.Trainer(net.collect_params(), 'sgd', {'learning_rate': .01})\<close>.
  \<open>trainer.step(n)\<close> rescales every gradient by \<open>1 / n\<close> (which raises for \<open>n = 0\<close>)
  and applies one step of plain stochastic gradient descent to every parameter.
\<close>

definition sgd_update :: "real \<Rightarrow> real \<Rightarrow> real \<Rightarrow> real \<Rightarrow> real" where
  "sgd_update lr rescale_grad w g = w - lr * (rescale_grad * g)"

definition update_layer :: "real \<Rightarrow> (nat \<Rightarrow> nat \<Rightarrow> real) \<times> (nat \<Rightarrow> real) \<Rightarrow> Dense \<Rightarrow> Dense" where
  "update_layer rescale_grad g d =
     d\<lparr>weight := map (\<lambda>(i, row). map (\<lambda>(j, w). sgd_update learning_rate rescale_grad w (fst g i j))
                                     (enumerate 0 row))
                      (enumerate 0 (weight d)),
       bias := map (\<lambda>(i, b). sgd_update learning_rate rescale_grad b (snd g i)) (enumerate 0 (bias d))\<rparr>"

definition sgd_step :: "nat \<Rightarrow> gradients \<Rightarrow> Sequential \<Rightarrow> Sequential" where
  "sgd_step n g params = map (\<lambda>(l, d). update_layer (1 / real n) (g l) d) (enumerate 0 params)"

definition trainer_step :: "nat \<Rightarrow> state \<Rightarrow> state option" where
  "trainer_step n s =
     (if n = 0 then None
      else Some (s\<lparr>net := sgd_step n (grads s) (net s), calls := calls s @ [Step n]\<rparr>))"

subsection \<open>Evaluation metric\<close>

text \<open>
  \<^verbatim>\<open>def evaluate_accuracy(data_iterator, net):
    acc = mx.metric.Accuracy()
    for i, (data, label) in enumerate(data_iterator):
        data = data.as_in_context(model_ctx).reshape((-1, 784))
        label = label.as_in_context(model_ctx)
        output = net(data)
        predictions = nd.argmax(output, axis=1)
        acc.update(preds=predictions, labels=label)
    return acc.get()[1]\<close>
  Starting a pass over a shuffling loader draws the next permutation.
\<close>

definition iterate :: "(nat \<Rightarrow> nat list) \<Rightarrow> DataLoader \<Rightarrow> state \<Rightarrow> (batch list \<times> state) option" where
  "iterate perms dl s =
     (if shuffle dl
      then map_option (\<lambda>bs. (bs, s\<lparr>draws := Suc (draws s)\<rparr>)) (DataLoader_iter dl (perms (draws s)))
      else map_option (\<lambda>bs. (bs, s)) (DataLoader_iter dl []))"

fun evaluate_batches :: "batch list \<Rightarrow> Accuracy \<Rightarrow> state \<Rightarrow> (Accuracy \<times> state) option" where
  "evaluate_batches [] acc s = Some (acc, s)"
| "evaluate_batches ((data, label) # bs) acc s = do {
     data \<leftarrow> reshape_784 data;
     (output, s) \<leftarrow> net_call data s;
     let predictions = map argmax output;
     acc \<leftarrow> Accuracy_update predictions label acc;
     evaluate_batches bs acc s
   }"

definition evaluate_accuracy ::
    "(nat \<Rightarrow> nat list) \<Rightarrow> DataLoader \<Rightarrow> state \<Rightarrow> (pyfloat \<times> state) option" where
  "evaluate_accuracy perms data_iterator s = do {
     (bs, s) \<leftarrow> iterate perms data_iterator s;
     (acc, s) \<leftarrow> evaluate_batches bs Accuracy_init s;
     Some (Accuracy_get acc, s)
   }"

subsection \<open>Training loop\<close>

text \<open>
  \<^verbatim>\<open>for e in range(epochs):
    cumulative_loss = 0
    for i, (data, label) in enumerate(train_data):
        data = data.as_in_context(model_ctx).reshape((-1, 784))
        label = label.as_in_context(model_ctx)
        with autograd.record():
            output = net(data)
            loss = softmax_cross_entropy(output, label)
        loss.backward()
        trainer.step(data.shape[0])
        cumulative_loss += nd.sum(loss).asscalar()

    test_accuracy = evaluate_accuracy(test_data, net)
    train_accuracy = evaluate_accuracy(train_data, net)
    print("Epoch %s. Loss: %s, Train_acc %s, Test_acc %s" %
          (e, cumulative_loss/num_examples, train_accuracy, test_accuracy))\<close>
\<close>

definition train_batch :: "autograd \<Rightarrow> batch \<Rightarrow> state \<Rightarrow> state option" where
  "train_batch ag b s = (case b of (data, label) \<Rightarrow> do {
     data \<leftarrow> reshape_784 data;
     (output, s) \<leftarrow> net_call data s;
     loss \<leftarrow> softmax_cross_entropy output label;
     let s = s\<lparr>calls := calls s @ [Loss (length output)]\<rparr>;
     let s = backward ag data label s;
     s \<leftarrow> trainer_step (length data) s;
     Some (s\<lparr>cumulative_loss := cumulative_loss s + sum_list loss\<rparr>)
   })"

fun train_batches :: "autograd \<Rightarrow> batch list \<Rightarrow> state \<Rightarrow> state option" where
  "train_batches ag [] s = Some s"
| "train_batches ag (b # bs) s = Option.bind (train_batch ag b s) (train_batches ag bs)"

definition print_report :: "nat \<Rightarrow> real \<Rightarrow> pyfloat \<Rightarrow> pyfloat \<Rightarrow> state \<Rightarrow> state" where
  "print_report e l tr te s =
     s\<lparr>console := console s @ [\<lparr>epoch_no = e, avg_loss = l, train_acc = tr, test_acc = te\<rparr>]\<rparr>"

definition epoch ::
    "autograd \<Rightarrow> (nat \<Rightarrow> nat list) \<Rightarrow> raw_dataset \<Rightarrow> raw_dataset \<Rightarrow> nat \<Rightarrow> state \<Rightarrow> state option" where
  "epoch ag perms mnist_train mnist_test e s = do {
     let s = s\<lparr>cumulative_loss := 0\<rparr>;
     (bs, s) \<leftarrow> iterate perms (train_data mnist_train) s;
     s \<leftarrow> train_batches ag bs s;
     (test_accuracy, s) \<leftarrow> evaluate_accuracy perms (test_data mnist_test) s;
     (train_accuracy, s) \<leftarrow> evaluate_accuracy perms (train_data mnist_train) s;
     Some (print_report e (cumulative_loss s / real num_examples) train_accuracy test_accuracy s)
   }"

fun run_epochs ::
    "autograd \<Rightarrow> (nat \<Rightarrow> nat list) \<Rightarrow> raw_dataset \<Rightarrow> raw_dataset \<Rightarrow> nat list \<Rightarrow> state \<Rightarrow> state option" where
  "run_epochs ag perms mnist_train mnist_test [] s = Some s"
| "run_epochs ag perms mnist_train mnist_test (e # es) s =
     Option.bind (epoch ag perms mnist_train mnist_test e s) (run_epochs ag perms mnist_train mnist_test es)"

definition training_loop ::
    "autograd \<Rightarrow> (nat \<Rightarrow> nat list) \<Rightarrow> raw_dataset \<Rightarrow> raw_dataset \<Rightarrow> state \<Rightarrow> state option" where
  "training_loop ag perms mnist_train mnist_test s =
     run_epochs ag perms mnist_train mnist_test [0..<epochs] s"

subsection \<open>Predicates and functions used in the statements\<close>

text \<open>
  The two operations of a layer as mathematics has them, to compare the framework
  operations with. The affine transform of a row \<open>x\<close> by a weight \<open>w\<close> and a bias
  \<open>b\<close> has one entry per unit \<open>j\<close>, the sum of the products \<open>x\<^sub>k * w\<^sub>j\<^sub>k\<close> plus
  \<open>b\<^sub>j\<close>. The rectified-linear activation keeps a positive value and replaces any
  other by zero.
\<close>

definition affine :: "mat \<Rightarrow> vec \<Rightarrow> vec \<Rightarrow> vec" where
  "affine w b x = map (\<lambda>j. (\<Sum>k<length x. x ! k * w ! j ! k) + b ! j) [0..<length b]"

definition rectified :: "real \<Rightarrow> real" where
  "rectified v = (if 0 < v then v else 0)"

text \<open>
  The network of the script with its parameters allocated for 784 inputs: three layers
  of 64, 64 and 10 units, the first two with a rectified-linear activation.
\<close>

definition net_shapes :: "Sequential \<Rightarrow> bool" where
  "net_shapes n =
     (map units n = [num_hidden, num_hidden, num_outputs] \<and>
      map activation n = [Some Relu, Some Relu, None] \<and>
      param_shapes (weight (n ! 0)) (bias (n ! 0)) (weight (n ! 1)) (bias (n ! 1))
                   (weight (n ! 2)) (bias (n ! 2)))"

text \<open>
  A state in which the network is ready for 784 inputs: no initialisation is deferred
  any more, and the parameters have the shapes above.
\<close>

definition ready :: "state \<Rightarrow> bool" where
  "ready s = (deferred s = None \<and> net_shapes (net s))"

text \<open>The samples of a batch, in order, and a dataset after the transform.\<close>

definition samples_of :: "batch \<Rightarrow> (vec \<times> real) list" where
  "samples_of b = zip (fst b) (snd b)"

definition transformed :: "raw_dataset \<Rightarrow> (vec \<times> real) list" where
  "transformed ds = map (\<lambda>(data, label). transform data label) ds"

definition batch_of :: "raw_dataset \<Rightarrow> nat list \<Rightarrow> batch" where
  "batch_of ds idxs =
     (map (\<lambda>i. fst (transformed ds ! i)) idxs, map (\<lambda>i. snd (transformed ds ! i)) idxs)"

definition pixels_in_range :: "int list \<Rightarrow> bool" where
  "pixels_in_range data = list_all (\<lambda>p. 0 \<le> p \<and> p \<le> 255) data"

definition scaled :: "vec \<Rightarrow> bool" where
  "scaled v = list_all (\<lambda>x. 0 \<le> x \<and> x \<le> 1) v"

text \<open>
  Well-formed inputs of the training loop: every image of a dataset has 784 pixels, and
  a batch has one row of 784 values per label and at least one label.
\<close>

definition valid_dataset :: "raw_dataset \<Rightarrow> bool" where
  "valid_dataset ds = list_all (\<lambda>s. length (fst s) = 784) ds"

definition valid_batch :: "batch \<Rightarrow> bool" where
  "valid_batch b = (has_shape (length (snd b)) 784 (fst b) \<and> snd b \<noteq> [])"

text \<open>The batches of one pass over a loader whose samples all load.\<close>

definition batches_of :: "DataLoader \<Rightarrow> nat list \<Rightarrow> batch list" where
  "batches_of dl perm =
     map (batch_of (dataset dl)) (batch_sampler (loader_batch_size dl) [] (sampler dl perm))"

text \<open>
  What the training loop asks of the framework for a list of batches, and what an
  evaluation asks.
\<close>

definition training_calls :: "batch list \<Rightarrow> call list" where
  "training_calls bs =
     concat (map (\<lambda>b. [Forward (length (snd b)), Loss (length (snd b)), Backward, Step (length (snd b))]) bs)"

definition evaluation_calls :: "batch list \<Rightarrow> call list" where
  "evaluation_calls bs = map (\<lambda>b. Forward (length (snd b))) bs"

text \<open>
  The per-sample losses of a batch under given parameters; the parameters after
  training on a list of batches, one optimizer step per batch; and the per-sample
  losses of these batches, each computed with the parameters current at its batch.
\<close>

definition batch_loss :: "Sequential \<Rightarrow> batch \<Rightarrow> vec" where
  "batch_loss n b =
     (case Sequential_forward n (fst b) of
        None \<Rightarrow> []
      | Some out \<Rightarrow> (case softmax_cross_entropy out (snd b) of None \<Rightarrow> [] | Some loss \<Rightarrow> loss))"

fun params_after :: "autograd \<Rightarrow> batch list \<Rightarrow> Sequential \<Rightarrow> Sequential" where
  "params_after ag [] n = n"
| "params_after ag (b # bs) n =
     params_after ag bs (sgd_step (length (snd b)) (ag n (fst b) (snd b)) n)"

fun epoch_losses :: "autograd \<Rightarrow> batch list \<Rightarrow> Sequential \<Rightarrow> vec list" where
  "epoch_losses ag [] n = []"
| "epoch_losses ag (b # bs) n =
     batch_loss n b # epoch_losses ag bs (sgd_step (length (snd b)) (ag n (fst b) (snd b)) n)"

text \<open>The state a training batch leaves behind.\<close>

definition batch_steps :: "autograd \<Rightarrow> batch \<Rightarrow> state \<Rightarrow> state" where
  "batch_steps ag b s =
     s\<lparr>net := sgd_step (length (snd b)) (ag (net s) (fst b) (snd b)) (net s),
       grads := ag (net s) (fst b) (snd b),
       cumulative_loss := cumulative_loss s + sum_list (batch_loss (net s) b),
       calls := calls s @ [Forward (length (snd b)), Loss (length (snd b)), Backward,
                           Step (length (snd b))]\<rparr>"

text \<open>
  What an epoch that starts in \<open>s0\<close> and ends in \<open>s1\<close> has done: its training batches
  are a rearrangement of the whole training set; the parameters have taken one
  optimizer step per batch; the accumulator holds the sum of all per-sample losses; and
  the framework was called for every training batch in turn, then for the evaluation on
  the test data, then for the evaluation on the training data.
\<close>

definition epoch_steps ::
    "autograd \<Rightarrow> (nat \<Rightarrow> nat list) \<Rightarrow> raw_dataset \<Rightarrow> raw_dataset \<Rightarrow> state \<Rightarrow> state \<Rightarrow> bool" where
  "epoch_steps ag perms tr te s0 s1 =
     (let bs = batches_of (train_data tr) (perms (draws s0)) in
      mset (concat (map samples_of bs)) = mset (transformed tr) \<and>
      net s1 = params_after ag bs (net s0) \<and>
      cumulative_loss s1 = sum_list (concat (epoch_losses ag bs (net s0))) \<and>
      calls s1 = calls s0 @ training_calls bs
                 @ evaluation_calls (batches_of (test_data te) [])
                 @ evaluation_calls (batches_of (train_data tr) (perms (Suc (draws s0)))))"

text \<open>
  Classification accuracy as the code computes it, from \<open>nd.argmax\<close> and the casts of
  the metric: the scores of one sample, whether its prediction is correct, and the share
  of correct predictions over a list of samples.
\<close>

definition score :: "Sequential \<Rightarrow> vec \<Rightarrow> vec" where
  "score n x = (case Sequential_forward n [x] of Some [y] \<Rightarrow> y | _ \<Rightarrow> [])"

definition correct :: "Sequential \<Rightarrow> vec \<times> real \<Rightarrow> bool" where
  "correct n s = (astype_int32 (argmax (score n (fst s))) = astype_int32 (snd s))"

definition accuracy_over :: "Sequential \<Rightarrow> (vec \<times> real) list \<Rightarrow> pyfloat" where
  "accuracy_over n samples =
     (if samples = [] then NaN
      else Float (real (length (filter (correct n) samples)) / real (length samples)))"

text \<open>
  The same accuracy stated without the operations of the framework, over a raw dataset.
  A position \<open>i\<close> is the argmax of a row of scores when its score is the largest and no
  earlier score is as large. A sample is a hit when its integer label is the argmax of
  the scores of its transformed image. The accuracy is the share of hits.
\<close>

definition first_max :: "vec \<Rightarrow> nat \<Rightarrow> bool" where
  "first_max v i =
     (i < length v \<and> list_all (\<lambda>x. x \<le> v ! i) v \<and> list_all (\<lambda>x. x < v ! i) (take i v))"

definition hit :: "Sequential \<Rightarrow> int list \<times> int \<Rightarrow> bool" where
  "hit n smp =
     (0 \<le> snd smp \<and> first_max (score n (fst (transform (fst smp) (snd smp)))) (nat (snd smp)))"

definition accuracy :: "Sequential \<Rightarrow> raw_dataset \<Rightarrow> pyfloat" where
  "accuracy n ds =
     (if ds = [] then NaN else Float (real (length (filter (hit n) ds)) / real (length ds)))"

text \<open>
  The line an epoch prints when it ends in state \<open>s\<close>, and what an epoch from \<open>s0\<close> to
  \<open>s1\<close> reports: the printed loss is the mean of the per-sample losses of the epoch,
  one per training sample; the line is appended to the console; and the two evaluations
  are the last calls of the epoch.
\<close>

definition report_of :: "raw_dataset \<Rightarrow> raw_dataset \<Rightarrow> nat \<Rightarrow> state \<Rightarrow> report" where
  "report_of tr te e s =
     \<lparr>epoch_no = e, avg_loss = cumulative_loss s / real num_examples,
      train_acc = accuracy (net s) tr, test_acc = accuracy (net s) te\<rparr>"

definition epoch_report ::
    "autograd \<Rightarrow> (nat \<Rightarrow> nat list) \<Rightarrow> raw_dataset \<Rightarrow> raw_dataset \<Rightarrow> nat \<Rightarrow> state \<Rightarrow> state \<Rightarrow> bool" where
  "epoch_report ag perms tr te e s0 s1 =
     (let losses = concat (epoch_losses ag (batches_of (train_data tr) (perms (draws s0))) (net s0)) in
      length losses = length tr \<and>
      avg_loss (report_of tr te e s1) = sum_list losses / real (length losses) \<and>
      console s1 = console s0 @ [report_of tr te e s1] \<and>
      calls s1 = calls s0 @ training_calls (batches_of (train_data tr) (perms (draws s0)))
                 @ evaluation_calls (batches_of (test_data te) [])
                 @ evaluation_calls (batches_of (train_data tr) (perms (Suc (draws s0)))))"

subsection \<open>Concrete inputs\<close>

text \<open>
  A state of the script around given, allocated parameters; the network with all
  parameters zero; an autograd that returns zero gradients; an all-black image with the
  label 0; and a training set of the size of MNIST.
\<close>

definition initial_state :: "Sequential \<Rightarrow> state" where
  "initial_state n =
     \<lparr>net = n, deferred = None, grads = (\<lambda>l. (\<lambda>i j. 0, \<lambda>i. 0)), cumulative_loss = 0,
      console = [], draws = 0, calls = []\<rparr>"

definition zero_net :: Sequential where
  "zero_net = net_init (replicate 64 (replicate 784 0)) (replicate 64 0)
                       (replicate 64 (replicate 64 0)) (replicate 64 0)
                       (replicate 10 (replicate 64 0)) (replicate 10 0)"

definition zero_grad :: autograd where
  "zero_grad n data label = (\<lambda>l. (\<lambda>i j. 0, \<lambda>i. 0))"

definition blank_image :: "int list \<times> int" where
  "blank_image = (replicate 784 0, 0)"

definition mnist_sized :: raw_dataset where
  "mnist_sized = replicate 60000 blank_image"

text \<open>
  A network that tells a white image from a black one: its score for class 7 is 4096
  times the sum of the pixel values, and every other score is zero. A test set of a
  black image labelled 0, a white image labelled 7 and a white image labelled 3.
\<close>

definition bright_net :: Sequential where
  "bright_net = net_init (replicate 64 (replicate 784 1)) (replicate 64 0)
                         (replicate 64 (replicate 64 1)) (replicate 64 0)
                         [replicate 64 0, replicate 64 0, replicate 64 0, replicate 64 0,
                          replicate 64 0, replicate 64 0, replicate 64 0, replicate 64 1,
                          replicate 64 0, replicate 64 0]
                         (replicate 10 0)"

definition two_tone :: raw_dataset where
  "two_tone = [(replicate 784 0, 0), (replicate 784 255, 7), (replicate 784 255, 3)]"



section \<open>Facts about the framework operations\<close>

subsection \<open>Shapes through the network\<close>

lemma has_shape_relu: "has_shape n k (relu x) = has_shape n k x"
  by (simp add: has_shape_def relu_def list_all_iff)

lemma has_shape_replicate: "has_shape n k (replicate n (replicate k a))"
  by (simp add: has_shape_def list_all_iff)

lemma FullyConnected_shape:
  assumes "has_shape m k w" and "length b = m" and "has_shape n k x"
  shows "\<exists>y. FullyConnected x w b m = Some y \<and> has_shape n m y"
  using assms by (auto simp: FullyConnected_def has_shape_def list_all_iff)

lemma forward_layers:
  assumes "param_shapes w0 b0 w1 b1 w2 b2" and "has_shape n 784 x"
  shows "\<exists>h0 h1 y.
     FullyConnected x w0 b0 64 = Some h0 \<and> has_shape n 64 h0 \<and>
     FullyConnected (relu h0) w1 b1 64 = Some h1 \<and> has_shape n 64 h1 \<and>
     FullyConnected (relu h1) w2 b2 10 = Some y \<and> has_shape n num_outputs y \<and>
     MLP_forward (MLP_init w0 b0 w1 b1 w2 b2) x = Some y \<and>
     Sequential_forward (net_init w0 b0 w1 b1 w2 b2) x = Some y"
proof -
  from assms obtain h0 where h0: "FullyConnected x w0 b0 64 = Some h0" "has_shape n 64 h0"
    unfolding param_shapes_def using FullyConnected_shape by blast
  from assms h0 obtain h1 where h1: "FullyConnected (relu h0) w1 b1 64 = Some h1" "has_shape n 64 h1"
    unfolding param_shapes_def
    using FullyConnected_shape[of 64 64 w1 b1 n "relu h0"] has_shape_relu by blast
  from assms h1 obtain y where y: "FullyConnected (relu h1) w2 b2 10 = Some y" "has_shape n 10 y"
    unfolding param_shapes_def
    using FullyConnected_shape[of 10 64 w2 b2 n "relu h1"] has_shape_relu by blast
  have "MLP_forward (MLP_init w0 b0 w1 b1 w2 b2) x = Some y"
    using h0 h1 y by (simp add: MLP_forward_def MLP_init_def Dense_call_def apply_activation_def)
  moreover have "Sequential_forward (net_init w0 b0 w1 b1 w2 b2) x = Some y"
    using h0 h1 y
    by (simp add: net_init_def Dense_call_def apply_activation_def num_hidden_def num_outputs_def)
  ultimately show ?thesis using h0 h1 y by (simp add: num_outputs_def)
qed

lemma net_shapes_cases:
  assumes "net_shapes n"
  obtains d0 d1 d2 where "n = [d0, d1, d2]"
    and "n = net_init (weight d0) (bias d0) (weight d1) (bias d1) (weight d2) (bias d2)"
    and "param_shapes (weight d0) (bias d0) (weight d1) (bias d1) (weight d2) (bias d2)"
proof -
  from assms have "length (map units n) = 3" unfolding net_shapes_def by simp
  then have "length n = 3" by simp
  then obtain d0 d1 d2 where n: "n = [d0, d1, d2]"
    by (metis (no_types, opaque_lifting) length_0_conv length_Suc_conv numeral_3_eq_3)
  from assms have "n = net_init (weight d0) (bias d0) (weight d1) (bias d1) (weight d2) (bias d2)"
    and "param_shapes (weight d0) (bias d0) (weight d1) (bias d1) (weight d2) (bias d2)"
    unfolding n net_shapes_def net_init_def by auto
  with n show ?thesis using that by blast
qed

lemma net_shapes_forward:
  assumes "net_shapes n" and "has_shape m 784 x"
  shows "\<exists>y. Sequential_forward n x = Some y \<and> has_shape m num_outputs y"
proof -
  from assms(1) obtain d0 d1 d2
    where "n = [d0, d1, d2]"
      and eq: "n = net_init (weight d0) (bias d0) (weight d1) (bias d1) (weight d2) (bias d2)"
      and ps: "param_shapes (weight d0) (bias d0) (weight d1) (bias d1) (weight d2) (bias d2)"
    by (rule net_shapes_cases)
  from forward_layers[OF ps assms(2)] show ?thesis using eq by auto
qed

subsection \<open>Reshaping\<close>

lemma reshape_784_id:
  assumes "has_shape n 784 data" shows "reshape_784 data = Some data"
proof -
  have len: "length (concat xs) = length xs * 784" if "list_all (\<lambda>r. length r = 784) xs" for xs :: mat
    using that by (induction xs) auto
  have row: "i < length xs \<Longrightarrow> take 784 (drop (i * 784) (concat xs)) = xs ! i"
    if "list_all (\<lambda>r. length r = 784) xs" for xs :: mat and i
    using that
  proof (induction xs arbitrary: i)
    case Nil then show ?case by simp
  next
    case (Cons a xs)
    show ?case
    proof (cases i)
      case 0 then show ?thesis using Cons.prems by simp
    next
      case (Suc j)
      then show ?thesis using Cons by simp
    qed
  qed
  from assms have a: "list_all (\<lambda>r. length r = 784) data" by (simp add: has_shape_def)
  have "map (\<lambda>i. take 784 (drop (i * 784) (concat data))) [0..<length data] =
        map (\<lambda>i. data ! i) [0..<length data]"
    using row[OF a] by (intro map_cong) auto
  then show ?thesis using len[OF a] by (simp add: reshape_784_def map_nth)
qed

lemma concat_chunks:
  "concat (map (\<lambda>i. take k (drop (i * k) xs)) [0..<n]) = take (n * k) xs"
proof (induction n)
  case 0
  then show ?case by simp
next
  case (Suc n)
  have "take (n * k) xs @ take k (drop (n * k) xs) = take (n * k + k) xs"
    by (simp add: take_add)
  then show ?case using Suc by (simp add: add.commute)
qed

lemma reshape_784_regroups:
  "(length (concat data) mod 784 = 0 \<longrightarrow>
      (\<exists>d. reshape_784 data = Some d \<and> concat d = concat data \<and>
           list_all (\<lambda>r. length r = 784) d)) \<and>
   (length (concat data) mod 784 \<noteq> 0 \<longrightarrow> reshape_784 data = None)"
proof (cases "length (concat data) mod 784 = 0")
  case False
  then show ?thesis by (simp add: reshape_784_def Let_def)
next
  case True
  let ?flat = "concat data"
  let ?n = "length ?flat div 784"
  let ?d = "map (\<lambda>i. take 784 (drop (i * 784) ?flat)) [0..<?n]"
  have n: "?n * 784 = length ?flat" using True by (metis add.right_neutral div_mult_mod_eq)
  have 1: "reshape_784 data = Some ?d" using True by (simp add: reshape_784_def Let_def)
  have 2: "concat ?d = ?flat" using concat_chunks[of 784 ?flat ?n] n by simp
  have "length (take 784 (drop (i * 784) ?flat)) = 784" if "i < ?n" for i
  proof -
    from that have "Suc i * 784 \<le> ?n * 784" by (intro mult_le_mono1) simp
    then have "i * 784 + 784 \<le> length ?flat" using n by simp
    then show ?thesis by simp
  qed
  then have 3: "list_all (\<lambda>r. length r = 784) ?d" by (simp add: list_all_iff)
  show ?thesis using True 1 2 3 by blast
qed

subsection \<open>Lists of optional results\<close>

lemma those_map_Some:
  "(\<And>x. x \<in> set xs \<Longrightarrow> f x = Some (g x)) \<Longrightarrow> those (map f xs) = Some (map g xs)"
  by (induction xs) auto

lemma those_Some_iff: "those xs = Some ys \<longleftrightarrow> xs = map Some ys"
  by (induction xs arbitrary: ys) (auto split: option.splits)

subsection \<open>The batch sampler\<close>

lemma concat_batch_sampler: "concat (batch_sampler n acc idxs) = acc @ idxs"
  by (induction idxs arbitrary: acc) auto

lemma batch_sampler_nonempty: "b \<in> set (batch_sampler n acc idxs) \<Longrightarrow> b \<noteq> []"
  by (induction idxs arbitrary: acc) (auto split: if_splits)

lemma batch_sampler_le:
  "b \<in> set (batch_sampler n acc idxs) \<Longrightarrow> length acc < n \<Longrightarrow> length b \<le> n"
proof (induction idxs arbitrary: acc)
  case Nil
  then show ?case by (auto split: if_splits)
next
  case (Cons i idxs)
  show ?case
  proof (cases "length (acc @ [i]) = n")
    case True
    with Cons.prems have "b = acc @ [i] \<or> b \<in> set (batch_sampler n [] idxs)" by auto
    then show ?thesis using True Cons.IH[of "[]"] Cons.prems(2) by auto
  next
    case False
    with Cons.prems have "b \<in> set (batch_sampler n (acc @ [i]) idxs)" by auto
    moreover have "length (acc @ [i]) < n" using False Cons.prems(2) by simp
    ultimately show ?thesis using Cons.IH by blast
  qed
qed

lemma batch_sampler_subset:
  "b \<in> set (batch_sampler n acc idxs) \<Longrightarrow> set b \<subseteq> set acc \<union> set idxs"
  using concat_batch_sampler[of n acc idxs]
  by (metis set_append set_concat UN_upper)

subsection \<open>Loading batches\<close>

lemma getitem_valid: "i < length ds \<Longrightarrow> getitem ds i = Some (transformed ds ! i)"
  by (simp add: getitem_def transformed_def split: prod.split)

lemma transformed_length:
  "i < length ds \<Longrightarrow> length (fst (transformed ds ! i)) = length (fst (ds ! i))"
  by (simp add: transformed_def transform_def split: prod.split)

lemma load_batch_valid:
  assumes "\<And>i. i \<in> set idxs \<Longrightarrow> i < length ds"
    and "list_all (\<lambda>s. length (fst s) = k) ds"
  shows "load_batch ds idxs = Some (batch_of ds idxs)"
proof -
  let ?smp = "map (\<lambda>i. transformed ds ! i) idxs"
  have 1: "those (map (getitem ds) idxs) = Some ?smp"
    using assms(1) by (intro those_map_Some) (simp add: getitem_valid)
  have 2: "length (fst (transformed ds ! i)) = k" if "i \<in> set idxs" for i
    using assms that by (simp add: transformed_length list_all_iff)
  have "list_all (\<lambda>s. length (fst s) = length (fst (hd ?smp))) ?smp"
  proof (cases idxs)
    case Nil then show ?thesis by simp
  next
    case (Cons a list)
    then show ?thesis using 2 by (simp add: list_all_iff)
  qed
  then show ?thesis using 1 by (simp add: load_batch_def batchify_def batch_of_def comp_def)
qed

lemma samples_of_batch_of: "samples_of (batch_of ds idxs) = map (\<lambda>i. transformed ds ! i) idxs"
  by (induction idxs) (auto simp: samples_of_def batch_of_def)

lemma DataLoader_iter_valid:
  assumes "\<And>i. i \<in> set (sampler dl perm) \<Longrightarrow> i < length (dataset dl)"
    and "list_all (\<lambda>s. length (fst s) = k) (dataset dl)"
  shows "DataLoader_iter dl perm =
     Some (map (batch_of (dataset dl)) (batch_sampler (loader_batch_size dl) [] (sampler dl perm)))"
  unfolding DataLoader_iter_def
proof (rule those_map_Some)
  fix b assume "b \<in> set (batch_sampler (loader_batch_size dl) [] (sampler dl perm))"
  then have "set b \<subseteq> set (sampler dl perm)" using batch_sampler_subset by fastforce
  then show "load_batch (dataset dl) b = Some (batch_of (dataset dl) b)"
    using assms by (intro load_batch_valid[where k=k]) auto
qed

lemma concat_samples:
  "concat (map (samples_of \<circ> batch_of ds) (batch_sampler n [] idxs)) =
   map (\<lambda>i. transformed ds ! i) idxs"
proof -
  have "concat (map (samples_of \<circ> batch_of ds) bs) = map (\<lambda>i. transformed ds ! i) (concat bs)" for bs
    by (induction bs) (auto simp: samples_of_batch_of)
  then show ?thesis by (simp add: concat_batch_sampler)
qed

lemma perm_bound: "mset perm = mset [0..<n] \<Longrightarrow> i \<in> set perm \<Longrightarrow> i < n"
  by (metis atLeastLessThan_iff set_mset_mset set_upt)

lemma load_batch_rows:
  assumes "load_batch ds idxs = Some b" and "row \<in> set (fst b)"
  shows "\<exists>s \<in> set ds. row = fst (transform (fst s) (snd s))"
proof -
  from assms(1) obtain samples where s: "those (map (getitem ds) idxs) = Some samples"
    and b: "batchify samples = Some b"
    by (auto simp: load_batch_def split: Option.bind_splits)
  from b have "fst b = map fst samples" by (auto simp: batchify_def split: if_splits)
  with assms(2) obtain smp where smp: "smp \<in> set samples" "row = fst smp" by auto
  from s have "map (getitem ds) idxs = map Some samples" by (simp add: those_Some_iff)
  then have "Some smp \<in> set (map (getitem ds) idxs)" using smp(1) by simp
  then obtain i where "getitem ds i = Some smp" by (auto simp: eq_commute)
  then have "i < length ds" "smp = transform (fst (ds ! i)) (snd (ds ! i))"
    by (auto simp: getitem_def split: if_splits prod.splits)
  then show ?thesis using smp(2) nth_mem by blast
qed

lemma DataLoader_iter_rows:
  assumes "DataLoader_iter dl perm = Some bs" and "b \<in> set bs" and "row \<in> set (fst b)"
  shows "\<exists>s \<in> set (dataset dl). row = fst (transform (fst s) (snd s))"
proof -
  from assms(1) have "map (load_batch (dataset dl))
      (batch_sampler (loader_batch_size dl) [] (sampler dl perm)) = map Some bs"
    by (simp add: DataLoader_iter_def those_Some_iff)
  then have "Some b \<in> set (map (load_batch (dataset dl))
      (batch_sampler (loader_batch_size dl) [] (sampler dl perm)))"
    using assms(2) by simp
  then obtain idxs where "load_batch (dataset dl) idxs = Some b" by (auto simp: eq_commute)
  then show ?thesis using assms(3) by (rule load_batch_rows)
qed

lemma scaled_transform: "pixels_in_range data \<Longrightarrow> scaled (fst (transform data label))"
  by (simp add: pixels_in_range_def scaled_def transform_def list_all_iff)

subsection \<open>The optimizer step keeps the shapes\<close>

lemma update_layer_fields:
  "units (update_layer r g d) = units d" "activation (update_layer r g d) = activation d"
  "length (bias (update_layer r g d)) = length (bias d)"
  "has_shape n k (weight (update_layer r g d)) = has_shape n k (weight d)"
  by (auto simp: update_layer_def has_shape_def list_all_length nth_enumerate_eq)

lemma net_shapes_sgd_step:
  assumes "net_shapes n" shows "net_shapes (sgd_step m g n)"
proof -
  from assms obtain d0 d1 d2 where n: "n = [d0, d1, d2]"
    and "n = net_init (weight d0) (bias d0) (weight d1) (bias d1) (weight d2) (bias d2)"
    and "param_shapes (weight d0) (bias d0) (weight d1) (bias d1) (weight d2) (bias d2)"
    by (rule net_shapes_cases)
  with assms show ?thesis
    by (simp add: net_shapes_def sgd_step_def param_shapes_def update_layer_fields)
qed

subsection \<open>The loss\<close>

lemma pick_Some: "v \<noteq> [] \<Longrightarrow> \<exists>y. pick v idx = Some y"
  by (simp add: pick_def)

lemma softmax_cross_entropy_Some:
  assumes "has_shape n k output" and "0 < k" and "length label = n"
  shows "\<exists>loss. softmax_cross_entropy output label = Some loss \<and> length loss = n"
proof -
  have "\<exists>y. map_option uminus (pick (log_softmax row) l) = Some y" if "row \<in> set output" for row l
  proof -
    have "log_softmax row \<noteq> []"
      using that assms(1,2) by (auto simp: has_shape_def list_all_iff log_softmax_def)
    then show ?thesis using pick_Some by fastforce
  qed
  then have "\<forall>p \<in> set (zip output label). (\<lambda>(row, l). map_option uminus (pick (log_softmax row) l)) p
        = Some (the ((\<lambda>(row, l). map_option uminus (pick (log_softmax row) l)) p))"
    using set_zip_leftD by fastforce
  then have "those (map (\<lambda>(row, l). map_option uminus (pick (log_softmax row) l)) (zip output label))
     = Some (map (\<lambda>p. the ((\<lambda>(row, l). map_option uminus (pick (log_softmax row) l)) p)) (zip output label))"
    by (intro those_map_Some) blast
  then show ?thesis using assms by (simp add: softmax_cross_entropy_def has_shape_def)
qed

subsection \<open>Deferred initialisation\<close>

lemma finish_init_allocated: "deferred s = None \<Longrightarrow> finish_init k s = s"
  by (simp add: finish_init_def)

lemma finish_init_fields:
  "deferred (finish_init k s) = None" "grads (finish_init k s) = grads s"
  "cumulative_loss (finish_init k s) = cumulative_loss s" "console (finish_init k s) = console s"
  "draws (finish_init k s) = draws s" "calls (finish_init k s) = calls s"
  by (simp_all add: finish_init_def split: option.split)


lemma finish_init_idem: "finish_init k (finish_init j s) = finish_init j s"
  by (simp add: finish_init_allocated finish_init_fields)

lemma finish_init_update:
  "finish_init k (s\<lparr>cumulative_loss := c\<rparr>) = (finish_init k s)\<lparr>cumulative_loss := c\<rparr>"
  "finish_init k (s\<lparr>draws := d\<rparr>) = (finish_init k s)\<lparr>draws := d\<rparr>"
  by (simp_all add: finish_init_def split: option.split)

lemma net_call_allocated:
  "deferred s = None \<Longrightarrow>
   net_call data s =
     map_option (\<lambda>output. (output, s\<lparr>calls := calls s @ [Forward (length data)]\<rparr>))
       (Sequential_forward (net s) data)"
  by (simp add: net_call_def finish_init_allocated)

lemma net_call_frame:
  "net_call data s = Some (out, s') \<Longrightarrow>
   s' = (finish_init (in_units_of data) s)\<lparr>calls := calls s @ [Forward (length data)]\<rparr>"
  by (auto simp: net_call_def Let_def finish_init_fields)

lemma in_units_of_rows: "has_shape n k data \<Longrightarrow> 0 < n \<Longrightarrow> in_units_of data = k"
  by (cases data) (auto simp: has_shape_def in_units_of_def)

subsection \<open>Training on valid batches\<close>

lemma train_batch_runs:
  assumes "ready s" and "valid_batch b"
  shows "\<exists>out loss.
     Sequential_forward (net s) (fst b) = Some out \<and>
     softmax_cross_entropy out (snd b) = Some loss \<and> length loss = length (snd b) \<and>
     train_batch ag b s =
       Some (s\<lparr>net := sgd_step (length (snd b)) (ag (net s) (fst b) (snd b)) (net s),
                grads := ag (net s) (fst b) (snd b),
                cumulative_loss := cumulative_loss s + sum_list loss,
                calls := calls s @ training_calls [b]\<rparr>)"
proof -
  obtain data label where b: "b = (data, label)" by (cases b)
  from assms(2) have shp: "has_shape (length label) 784 data" and ne: "label \<noteq> []"
    by (simp_all add: valid_batch_def b)
  from shp have len: "length data = length label" by (simp add: has_shape_def)
  from assms(1) have d: "deferred s = None" and ns: "net_shapes (net s)"
    by (simp_all add: ready_def)
  from net_shapes_forward[OF ns shp] obtain out
    where out: "Sequential_forward (net s) data = Some out" "has_shape (length label) num_outputs out"
    by blast
  from softmax_cross_entropy_Some[OF out(2) _ refl] obtain loss
    where loss: "softmax_cross_entropy out label = Some loss" "length loss = length label"
    by (auto simp: num_outputs_def)
  from out(2) have lo: "length out = length label" by (simp add: has_shape_def)
  have "train_batch ag b s =
       Some (s\<lparr>net := sgd_step (length label) (ag (net s) data label) (net s),
                grads := ag (net s) data label,
                cumulative_loss := cumulative_loss s + sum_list loss,
                calls := calls s @ training_calls [b]\<rparr>)"
    using out(1) loss(1) ne len lo
    by (auto simp: train_batch_def b reshape_784_id[OF shp] net_call_allocated[OF d] backward_def
        trainer_step_def sgd_step_def training_calls_def Let_def)
  then show ?thesis using out(1) loss by (simp add: b)
qed

lemma training_calls_Cons: "training_calls (b # bs) = training_calls [b] @ training_calls bs"
  by (simp add: training_calls_def)

lemma train_batches_runs:
  assumes "ready s" and "list_all valid_batch bs"
  shows "\<exists>s'. train_batches ag bs s = Some s' \<and>
     net s' = params_after ag bs (net s) \<and> ready s' \<and>
     cumulative_loss s' = cumulative_loss s + sum_list (concat (epoch_losses ag bs (net s))) \<and>
     map length (epoch_losses ag bs (net s)) = map (\<lambda>b. length (snd b)) bs \<and>
     calls s' = calls s @ training_calls bs \<and>
     console s' = console s \<and> draws s' = draws s"
  using assms
proof (induction bs arbitrary: s)
  case Nil
  then show ?case by (simp add: training_calls_def)
next
  case (Cons b bs)
  from Cons.prems have vb: "valid_batch b" and vbs: "list_all valid_batch bs" by simp_all
  let ?g = "ag (net s) (fst b) (snd b)"
  from train_batch_runs[OF Cons.prems(1) vb, of ag] obtain out loss
    where out: "Sequential_forward (net s) (fst b) = Some out"
      and loss: "softmax_cross_entropy out (snd b) = Some loss" "length loss = length (snd b)"
      and tb: "train_batch ag b s =
        Some (s\<lparr>net := sgd_step (length (snd b)) ?g (net s), grads := ?g,
                 cumulative_loss := cumulative_loss s + sum_list loss,
                 calls := calls s @ training_calls [b]\<rparr>)"
    by blast
  let ?s1 = "s\<lparr>net := sgd_step (length (snd b)) ?g (net s), grads := ?g,
                 cumulative_loss := cumulative_loss s + sum_list loss,
                 calls := calls s @ training_calls [b]\<rparr>"
  have bl: "batch_loss (net s) b = loss" using out loss by (simp add: batch_loss_def)
  have ns1: "ready ?s1" using Cons.prems(1) by (simp add: ready_def net_shapes_sgd_step)
  from Cons.IH[OF ns1 vbs] obtain s' where s': "train_batches ag bs ?s1 = Some s'"
    "net s' = params_after ag bs (net ?s1)" "ready s'"
    "cumulative_loss s' = cumulative_loss ?s1 + sum_list (concat (epoch_losses ag bs (net ?s1)))"
    "map length (epoch_losses ag bs (net ?s1)) = map (\<lambda>b. length (snd b)) bs"
    "calls s' = calls ?s1 @ training_calls bs"
    "console s' = console ?s1" "draws s' = draws ?s1"
    by blast
  have "train_batches ag (b # bs) s = Some s'" using tb s'(1) by simp
  moreover have "calls s' = calls s @ training_calls (b # bs)"
    using s'(6) training_calls_Cons[of b bs] by simp
  ultimately show ?case using s' bl loss(2) by simp
qed

subsection \<open>The network works row by row\<close>

lemma FullyConnected_rows:
  assumes "FullyConnected xs w b n = Some ys"
  shows "ys = map (\<lambda>r. map2 (\<lambda>wr bi. dot r wr + bi) w b) xs"
    and "x \<in> set xs \<Longrightarrow> FullyConnected [x] w b n = Some [map2 (\<lambda>wr bi. dot x wr + bi) w b]"
  using assms by (auto simp: FullyConnected_def list_all_iff split: if_splits)

lemma Dense_call_rows:
  assumes "Dense_call d xs = Some ys"
  shows "\<exists>f. ys = map f xs \<and> (\<forall>x \<in> set xs. Dense_call d [x] = Some [f x])"
proof -
  from assms obtain zs where zs: "FullyConnected xs (weight d) (bias d) (units d) = Some zs"
    and ys: "ys = apply_activation (activation d) zs"
    by (auto simp: Dense_call_def)
  let ?r = "\<lambda>r. map2 (\<lambda>wr bi. dot r wr + bi) (weight d) (bias d)"
  let ?f = "\<lambda>x. hd (apply_activation (activation d) [?r x])"
  have "ys = map ?f xs"
    unfolding ys FullyConnected_rows(1)[OF zs]
    by (cases "activation d") (auto simp: apply_activation_def relu_def split: activation.splits)
  moreover have "Dense_call d [x] = Some [?f x]" if "x \<in> set xs" for x
    using FullyConnected_rows(2)[OF zs that]
    by (cases "activation d") (auto simp: Dense_call_def apply_activation_def relu_def split: activation.splits)
  ultimately show ?thesis by blast
qed

lemma Sequential_forward_rows:
  assumes "Sequential_forward n xs = Some ys"
  shows "ys = map (score n) xs"
proof -
  have "\<exists>f. ys = map f xs \<and> (\<forall>x \<in> set xs. Sequential_forward n [x] = Some [f x])"
    using assms
  proof (induction n arbitrary: xs ys)
    case Nil
    then show ?case by (intro exI[of _ "\<lambda>x. x"]) simp
  next
    case (Cons d ds)
    from Cons.prems obtain zs where zs: "Dense_call d xs = Some zs"
      and ys: "Sequential_forward ds zs = Some ys"
      by (auto split: option.splits)
    from Dense_call_rows[OF zs] obtain f
      where f: "zs = map f xs" "\<forall>x \<in> set xs. Dense_call d [x] = Some [f x]" by blast
    from Cons.IH[OF ys] obtain g
      where g: "ys = map g zs" "\<forall>z \<in> set zs. Sequential_forward ds [z] = Some [g z]" by blast
    have "ys = map (g \<circ> f) xs" using f(1) g(1) by simp
    moreover have "Sequential_forward (d # ds) [x] = Some [(g \<circ> f) x]" if "x \<in> set xs" for x
      using f g that by simp
    ultimately show ?case by blast
  qed
  then obtain f where f: "ys = map f xs" "\<forall>x \<in> set xs. Sequential_forward n [x] = Some [f x]"
    by blast
  have "score n x = f x" if "x \<in> set xs" for x using f(2) that by (simp add: score_def)
  then show ?thesis using f(1) by simp
qed

subsection \<open>Evaluation on valid batches\<close>

lemma count_correct:
  assumes "length xs = length ls"
  shows "length (filter (\<lambda>(p, l). astype_int32 p = astype_int32 l) (zip (map argmax (map (score n) xs)) ls))
       = length (filter (correct n) (zip xs ls))"
  using assms by (induction xs ls rule: list_induct2) (auto simp: correct_def)

lemma samples_of_pair: "samples_of (data, label) = zip data label"
  by (simp add: samples_of_def)

lemma evaluation_calls_Cons: "evaluation_calls (b # bs) = Forward (length (snd b)) # evaluation_calls bs"
  by (simp add: evaluation_calls_def)

lemma evaluate_batches_runs:
  assumes "ready s" and "list_all valid_batch bs"
  shows "evaluate_batches bs acc s =
     Some (\<lparr>sum_metric = sum_metric acc + real (length (filter (correct (net s)) (concat (map samples_of bs)))),
            num_inst = num_inst acc + length (concat (map samples_of bs))\<rparr>,
           s\<lparr>calls := calls s @ evaluation_calls bs\<rparr>)"
  using assms
proof (induction bs arbitrary: acc s)
  case Nil
  then show ?case by (simp add: evaluation_calls_def)
next
  case (Cons b bs)
  obtain data label where b: "b = (data, label)" by (cases b)
  from Cons.prems have vb: "valid_batch b" and vbs: "list_all valid_batch bs" by simp_all
  from vb have shp: "has_shape (length label) 784 data" and ne: "label \<noteq> []"
    by (simp_all add: valid_batch_def b)
  from shp have len: "length data = length label" by (simp add: has_shape_def)
  from Cons.prems(1) have d: "deferred s = None" and ns: "net_shapes (net s)"
    by (simp_all add: ready_def)
  from net_shapes_forward[OF ns shp] obtain out
    where out: "Sequential_forward (net s) data = Some out" by blast
  have rows: "out = map (score (net s)) data" using out by (rule Sequential_forward_rows)
  let ?acc1 = "\<lparr>sum_metric = sum_metric acc + real (length (filter (correct (net s)) (zip data label))),
                num_inst = num_inst acc + length label\<rparr>"
  let ?s1 = "s\<lparr>calls := calls s @ [Forward (length label)]\<rparr>"
  have upd: "Accuracy_update (map argmax out) label acc = Some ?acc1"
    using len count_correct[OF len, of "net s"] by (simp add: Accuracy_update_def rows)
  have step: "evaluate_batches (b # bs) acc s = evaluate_batches bs ?acc1 ?s1"
    using out upd len by (simp add: b reshape_784_id[OF shp] net_call_allocated[OF d])
  have ns1: "ready ?s1" using Cons.prems(1) by (simp add: ready_def)
  show ?case
    unfolding step Cons.IH[OF ns1 vbs]
    using len by (simp add: b samples_of_pair evaluation_calls_Cons)
qed

lemma valid_batch_of:
  assumes "valid_dataset ds" and "idxs \<noteq> []" and "\<And>i. i \<in> set idxs \<Longrightarrow> i < length ds"
  shows "valid_batch (batch_of ds idxs)"
  using assms
  by (auto simp: valid_batch_def batch_of_def has_shape_def valid_dataset_def list_all_iff
      transformed_length)

lemma batches_of_valid:
  assumes "valid_dataset (dataset dl)"
    and "\<And>i. i \<in> set (sampler dl perm) \<Longrightarrow> i < length (dataset dl)"
  shows "list_all valid_batch (batches_of dl perm)"
    and "DataLoader_iter dl perm = Some (batches_of dl perm)"
proof -
  have "valid_batch (batch_of (dataset dl) b)"
    if "b \<in> set (batch_sampler (loader_batch_size dl) [] (sampler dl perm))" for b
  proof -
    from that have "set b \<subseteq> set (sampler dl perm)" using batch_sampler_subset by fastforce
    then show ?thesis
      using assms batch_sampler_nonempty[OF that] by (intro valid_batch_of) auto
  qed
  then show "list_all valid_batch (batches_of dl perm)"
    by (simp add: batches_of_def list_all_iff)
  show "DataLoader_iter dl perm = Some (batches_of dl perm)"
    unfolding batches_of_def using assms(2) assms(1)[unfolded valid_dataset_def]
    by (rule DataLoader_iter_valid)
qed

lemma Accuracy_get_counts:
  "Accuracy_get \<lparr>sum_metric = sum_metric Accuracy_init + real (length (filter (correct n) xs)),
                 num_inst = num_inst Accuracy_init + length xs\<rparr> = accuracy_over n xs"
  by (simp add: Accuracy_get_def Accuracy_init_def accuracy_over_def)

lemma evaluate_accuracy_test:
  assumes "ready s" and "valid_dataset te"
  shows "evaluate_accuracy perms (test_data te) s =
     Some (accuracy_over (net s) (transformed te),
           s\<lparr>calls := calls s @ evaluation_calls (batches_of (test_data te) [])\<rparr>)"
proof -
  let ?bs = "batches_of (test_data te) []"
  have v: "valid_dataset (dataset (test_data te))" using assms(2) by (simp add: test_data_def)
  have r: "\<And>i. i \<in> set (sampler (test_data te) []) \<Longrightarrow> i < length (dataset (test_data te))"
    by (simp add: sampler_def test_data_def)
  note b = batches_of_valid[where dl = "test_data te" and perm = "[]", OF v r]
  have it: "iterate perms (test_data te) s = Some (?bs, s)"
    using b(2) by (simp add: iterate_def test_data_def)
  have "length (transformed te) = length te" by (simp add: transformed_def)
  then have "map (\<lambda>i. transformed te ! i) [0..<length te] = transformed te" by (metis map_nth)
  then have smp: "concat (map samples_of ?bs) = transformed te"
    using concat_samples[of te batch_size "[0..<length te]"]
    by (simp add: batches_of_def test_data_def sampler_def comp_def)
  show ?thesis
    by (simp add: evaluate_accuracy_def it evaluate_batches_runs[OF assms(1) b(1)]
        Accuracy_get_counts smp)
qed

lemma length_filter_mset:
  "mset xs = mset ys \<Longrightarrow> length (filter P xs) = length (filter P ys)"
  by (metis mset_filter size_mset)

lemma accuracy_over_mset:
  assumes "mset xs = mset ys" shows "accuracy_over n xs = accuracy_over n ys"
proof -
  from assms have "length xs = length ys" by (metis size_mset)
  moreover have "xs = [] \<longleftrightarrow> ys = []" using assms by (metis mset_zero_iff)
  ultimately show ?thesis using length_filter_mset[OF assms, of "correct n"]
    by (simp add: accuracy_over_def)
qed

lemma evaluate_accuracy_train:
  assumes "ready s" and "valid_dataset tr"
    and "mset (perms (draws s)) = mset [0..<length tr]"
  shows "evaluate_accuracy perms (train_data tr) s =
     Some (accuracy_over (net s) (transformed tr),
           s\<lparr>draws := Suc (draws s),
             calls := calls s @ evaluation_calls (batches_of (train_data tr) (perms (draws s)))\<rparr>)"
proof -
  let ?p = "perms (draws s)"
  let ?bs = "batches_of (train_data tr) ?p"
  let ?s1 = "s\<lparr>draws := Suc (draws s)\<rparr>"
  have v: "valid_dataset (dataset (train_data tr))" using assms(2) by (simp add: train_data_def)
  have r: "\<And>i. i \<in> set (sampler (train_data tr) ?p) \<Longrightarrow> i < length (dataset (train_data tr))"
    using perm_bound[OF assms(3)] by (simp add: sampler_def train_data_def)
  note b = batches_of_valid[where dl = "train_data tr" and perm = ?p, OF v r]
  have it: "iterate perms (train_data tr) s = Some (?bs, ?s1)"
    using b(2) by (simp add: iterate_def train_data_def)
  have "length (transformed tr) = length tr" by (simp add: transformed_def)
  then have c2: "map (\<lambda>i. transformed tr ! i) [0..<length tr] = transformed tr" by (metis map_nth)
  have smp: "concat (map samples_of ?bs) = map (\<lambda>i. transformed tr ! i) ?p"
    using concat_samples[of tr batch_size ?p]
    by (simp add: batches_of_def train_data_def sampler_def comp_def)
  have "mset (map (\<lambda>i. transformed tr ! i) ?p) = mset (map (\<lambda>i. transformed tr ! i) [0..<length tr])"
    using assms(3) by (metis mset_map)
  then have ms: "mset (concat (map samples_of ?bs)) = mset (transformed tr)" using smp c2 by simp
  have ns1: "ready ?s1" using assms(1) by (simp add: ready_def)
  have "accuracy_over (net s) (concat (map samples_of ?bs)) = accuracy_over (net s) (transformed tr)"
    using ms by (rule accuracy_over_mset)
  then show ?thesis
    by (simp add: evaluate_accuracy_def it evaluate_batches_runs[OF ns1 b(1)]
        Accuracy_get_counts)
qed

subsection \<open>The argmax and the accuracy\<close>

lemma first_max_iff:
  "first_max v i \<longleftrightarrow>
     i < length v \<and> (\<forall>j<length v. v ! j \<le> v ! i) \<and> (\<forall>j<i. v ! j < v ! i)"
  by (auto simp: first_max_def list_all_length)

lemma first_max_unique:
  assumes "first_max v i" and "first_max v j" shows "i = j"
proof (rule ccontr)
  assume "i \<noteq> j"
  then consider "i < j" | "j < i" by linarith
  then show False
  proof cases
    case 1
    then have "v ! i < v ! j" "v ! j \<le> v ! i" using assms by (simp_all add: first_max_iff)
    then show False by simp
  next
    case 2
    then have "v ! j < v ! i" "v ! i \<le> v ! j" using assms by (simp_all add: first_max_iff)
    then show False by simp
  qed
qed

lemma argmax_from_first_max:
  "first_max pre best \<Longrightarrow>
   first_max (pre @ xs) (argmax_from best (pre ! best) (length pre) xs)"
proof (induction xs arbitrary: pre best)
  case Nil
  then show ?case by simp
next
  case (Cons x xs)
  from Cons.prems have b: "best < length pre" by (simp add: first_max_iff)
  show ?case
  proof (cases "pre ! best < x")
    case True
    have "first_max (pre @ [x]) (length pre)"
      using Cons.prems True by (auto simp: first_max_iff nth_append less_Suc_eq)
    from Cons.IH[OF this] show ?thesis using True by simp
  next
    case False
    have "first_max (pre @ [x]) best"
      using Cons.prems False by (auto simp: first_max_iff nth_append less_Suc_eq)
    from Cons.IH[OF this] show ?thesis using False b by (simp add: nth_append)
  qed
qed

lemma argmax_first_max: "v \<noteq> [] \<Longrightarrow> \<exists>i. argmax v = real i \<and> first_max v i"
proof (cases v)
  case Nil
  assume "v \<noteq> []"
  with Nil show ?thesis by simp
next
  case (Cons x xs)
  have "first_max [x] 0" by (simp add: first_max_iff)
  from argmax_from_first_max[OF this, of xs] show ?thesis by (simp add: Cons argmax_def)
qed

lemma astype_int32_of_int: "astype_int32 (real_of_int k) = k"
  by (simp add: astype_int32_def)

lemma astype_int32_of_nat: "astype_int32 (real n) = int n"
  by (simp add: astype_int32_def)

lemma score_length:
  assumes "net_shapes n" and "length x = 784" shows "length (score n x) = 10"
proof -
  have "has_shape 1 784 [x]" using assms(2) by (simp add: has_shape_def)
  from net_shapes_forward[OF assms(1) this] obtain y
    where y: "Sequential_forward n [x] = Some y" "has_shape 1 num_outputs y" by blast
  from y(2) obtain r where "y = [r]" "length r = 10"
    by (cases y) (auto simp: has_shape_def num_outputs_def)
  then show ?thesis using y(1) by (simp add: score_def)
qed

lemma correct_hit:
  assumes "net_shapes n" and "length img = 784"
  shows "correct n (transform img l) = hit n (img, l)"
proof -
  let ?v = "score n (fst (transform img l))"
  have "length (fst (transform img l)) = 784" using assms(2) by (simp add: transform_def)
  then have "length ?v = 10" using assms(1) by (rule score_length[rotated])
  then have "?v \<noteq> []" by auto
  from argmax_first_max[OF this] obtain i where i: "argmax ?v = real i" "first_max ?v i"
    by blast
  have l: "snd (transform img l) = real_of_int l" by (simp add: transform_def)
  have "correct n (transform img l) \<longleftrightarrow> int i = l"
    unfolding correct_def i(1) l astype_int32_of_nat astype_int32_of_int ..
  also have "\<dots> \<longleftrightarrow> 0 \<le> l \<and> first_max ?v (nat l)"
    using i(2) first_max_unique[of ?v i "nat l"] by auto
  finally show ?thesis by (simp add: hit_def)
qed

lemma accuracy_over_transformed:
  assumes "net_shapes n" and "valid_dataset ds"
  shows "accuracy_over n (transformed ds) = accuracy n ds"
proof -
  have "correct n (transform (fst smp) (snd smp)) = hit n smp" if "smp \<in> set ds" for smp
    using correct_hit[OF assms(1), of "fst smp" "snd smp"] assms(2) that
    by (simp add: valid_dataset_def list_all_iff)
  then have "filter (correct n \<circ> (\<lambda>(data, label). transform data label)) ds = filter (hit n) ds"
    by (intro filter_cong) (auto simp: case_prod_beta)
  then have "length (filter (correct n) (transformed ds)) = length (filter (hit n) ds)"
    by (simp add: transformed_def filter_map)
  then show ?thesis by (simp add: accuracy_over_def accuracy_def transformed_def)
qed

subsection \<open>The loss of one sample\<close>

lemma softmax_cross_entropy_row:
  assumes "0 \<le> l" and "l < int (length row)"
  shows "softmax_cross_entropy [row] [real_of_int l] =
           Some [ln (sum_list (map exp row)) - row ! nat l]"
proof -
  from assms have ne: "row \<noteq> []" by auto
  have i: "nat (min (max l 0) (int (length row) - 1)) = nat l" using assms by simp
  have "nat l < length row" using assms by simp
  then have "log_softmax row ! nat l = row ! nat l - ln (sum_list (map exp row))"
    by (simp add: log_softmax_def)
  then show ?thesis
    using ne by (simp add: softmax_cross_entropy_def pick_def astype_int32_of_int i log_softmax_def)
qed

subsection \<open>Epochs on valid data\<close>

lemma epoch_runs:
  assumes "ready s" and "valid_dataset tr" and "valid_dataset te"
    and "\<And>k. mset (perms k) = mset [0..<length tr]"
  shows "\<exists>s'. epoch ag perms tr te e s = Some s' \<and>
     net s' = params_after ag (batches_of (train_data tr) (perms (draws s))) (net s) \<and>
     ready s' \<and>
     cumulative_loss s' =
       sum_list (concat (epoch_losses ag (batches_of (train_data tr) (perms (draws s))) (net s))) \<and>
     length (concat (epoch_losses ag (batches_of (train_data tr) (perms (draws s))) (net s))) = length tr \<and>
     calls s' = calls s @ training_calls (batches_of (train_data tr) (perms (draws s)))
                        @ evaluation_calls (batches_of (test_data te) [])
                        @ evaluation_calls (batches_of (train_data tr) (perms (Suc (draws s)))) \<and>
     console s' = console s @
        [\<lparr>epoch_no = e, avg_loss = cumulative_loss s' / real num_examples,
          train_acc = accuracy (net s') tr, test_acc = accuracy (net s') te\<rparr>] \<and>
     draws s' = draws s + 2"
proof -
  let ?p = "perms (draws s)"
  let ?bs = "batches_of (train_data tr) ?p"
  let ?s0 = "s\<lparr>cumulative_loss := 0\<rparr>"
  let ?s1 = "?s0\<lparr>draws := Suc (draws s)\<rparr>"
  have v: "valid_dataset (dataset (train_data tr))" using assms(2) by (simp add: train_data_def)
  have r: "\<And>i. i \<in> set (sampler (train_data tr) ?p) \<Longrightarrow> i < length (dataset (train_data tr))"
    using perm_bound[OF assms(4)] by (simp add: sampler_def train_data_def)
  note b = batches_of_valid[where dl = "train_data tr" and perm = ?p, OF v r]
  have it: "iterate perms (train_data tr) ?s0 = Some (?bs, ?s1)"
    using b(2) by (simp add: iterate_def train_data_def)
  have ns1: "ready ?s1" using assms(1) by (simp add: ready_def)
  from train_batches_runs[OF ns1 b(1), where ag = ag] obtain s2 where s2:
    "train_batches ag ?bs ?s1 = Some s2" "net s2 = params_after ag ?bs (net s)" "ready s2"
    "cumulative_loss s2 = sum_list (concat (epoch_losses ag ?bs (net s)))"
    "map length (epoch_losses ag ?bs (net s)) = map (\<lambda>b. length (snd b)) ?bs"
    "calls s2 = calls s @ training_calls ?bs" "console s2 = console s" "draws s2 = Suc (draws s)"
    by auto
  let ?s3 = "s2\<lparr>calls := calls s2 @ evaluation_calls (batches_of (test_data te) [])\<rparr>"
  have e1: "evaluate_accuracy perms (test_data te) s2 = Some (accuracy_over (net s2) (transformed te), ?s3)"
    using s2(3) assms(3) by (rule evaluate_accuracy_test)
  let ?s4 = "?s3\<lparr>draws := Suc (draws ?s3),
                  calls := calls ?s3 @ evaluation_calls (batches_of (train_data tr) (perms (draws ?s3)))\<rparr>"
  have e2: "evaluate_accuracy perms (train_data tr) ?s3 = Some (accuracy_over (net ?s3) (transformed tr), ?s4)"
    using s2(3) assms(2,4) by (intro evaluate_accuracy_train) (simp_all add: ready_def)
  let ?s5 = "print_report e (cumulative_loss ?s4 / real num_examples)
               (accuracy_over (net ?s3) (transformed tr)) (accuracy_over (net s2) (transformed te)) ?s4"
  have run: "epoch ag perms tr te e s = Some ?s5"
    by (simp add: epoch_def it s2(1) e1 e2)
  have "length (concat (epoch_losses ag ?bs (net s))) = sum_list (map (\<lambda>b. length (snd b)) ?bs)"
    using s2(5) by (simp add: length_concat)
  also have "\<dots> = length (concat (batch_sampler batch_size [] ?p))"
    by (simp add: batches_of_def batch_of_def train_data_def sampler_def length_concat comp_def)
  also have "\<dots> = length tr"
    using mset_eq_length[OF assms(4)[of "draws s"]] by (simp add: concat_batch_sampler)
  finally have cnt: "length (concat (epoch_losses ag ?bs (net s))) = length tr" .
  have a1: "accuracy_over (net s2) (transformed te) = accuracy (net s2) te"
    using s2(3) assms(3) by (simp add: ready_def accuracy_over_transformed)
  have a2: "accuracy_over (net s2) (transformed tr) = accuracy (net s2) tr"
    using s2(3) assms(2) by (simp add: ready_def accuracy_over_transformed)
  show ?thesis
    unfolding run using s2 cnt a1 a2 by (simp add: print_report_def ready_def)
qed

lemma run_epochs_runs:
  assumes "ready s" and "valid_dataset tr" and "valid_dataset te"
    and "\<And>k. mset (perms k) = mset [0..<length tr]"
  shows "\<exists>ss. length ss = length es \<and>
     run_epochs ag perms tr te es s = Some (last (s # ss)) \<and>
     (\<forall>i<length es. ready ((s # ss) ! i) \<and>
         epoch ag perms tr te (es ! i) ((s # ss) ! i) = Some (ss ! i)) \<and>
     console (last (s # ss)) = console s @ map2 (report_of tr te) es ss"
  using assms(1)
proof (induction es arbitrary: s)
  case Nil
  then show ?case by simp
next
  case (Cons e es)
  from epoch_runs[where perms = perms and ag = ag and e = e, OF Cons.prems assms(2,3,4)] obtain s1
    where s1: "epoch ag perms tr te e s = Some s1" "ready s1"
      "console s1 = console s @ [report_of tr te e s1]"
    unfolding report_of_def by blast
  from Cons.IH[OF s1(2)] obtain ss where ss: "length ss = length es"
    "run_epochs ag perms tr te es s1 = Some (last (s1 # ss))"
    "\<forall>i<length es. ready ((s1 # ss) ! i) \<and>
         epoch ag perms tr te (es ! i) ((s1 # ss) ! i) = Some (ss ! i)"
    "console (last (s1 # ss)) = console s1 @ map2 (report_of tr te) es ss"
    by blast
  have 1: "length (s1 # ss) = length (e # es)" using ss(1) by simp
  have 2: "run_epochs ag perms tr te (e # es) s = Some (last (s # s1 # ss))"
    using s1(1) ss(2) by simp
  have 3: "ready ((s # s1 # ss) ! i) \<and>
         epoch ag perms tr te ((e # es) ! i) ((s # s1 # ss) ! i) = Some ((s1 # ss) ! i)"
    if "i < length (e # es)" for i
  proof (cases i)
    case 0
    then show ?thesis using Cons.prems s1(1) by simp
  next
    case (Suc j)
    then show ?thesis using ss(3) that by simp
  qed
  have 4: "console (last (s # s1 # ss)) = console s @ map2 (report_of tr te) (e # es) (s1 # ss)"
    using ss(4) s1(3) by simp
  show ?case using 1 2 3 4 by blast
qed

subsection \<open>What the operations leave unchanged\<close>

lemma Accuracy_update_bounds:
  assumes "Accuracy_update preds labels acc = Some acc'"
  shows "sum_metric acc \<le> sum_metric acc'"
    and "sum_metric acc' - sum_metric acc \<le> real (num_inst acc') - real (num_inst acc)"
    and "num_inst acc' = num_inst acc + length labels"
proof -
  have "length (filter (\<lambda>(p, l). astype_int32 p = astype_int32 l) (zip preds labels)) \<le> length preds"
    by (metis length_filter_le length_zip min.cobounded1 order_trans)
  with assms show "sum_metric acc \<le> sum_metric acc'"
    and "sum_metric acc' - sum_metric acc \<le> real (num_inst acc') - real (num_inst acc)"
    and "num_inst acc' = num_inst acc + length labels"
    by (auto simp: Accuracy_update_def split: if_splits)
qed

lemma evaluate_batches_frame:
  assumes "evaluate_batches bs acc s = Some (acc', s')"
  shows "(deferred s = None \<longrightarrow> net s' = net s \<and> deferred s' = None) \<and>
         grads s' = grads s \<and> cumulative_loss s' = cumulative_loss s \<and>
         console s' = console s \<and> draws s' = draws s \<and>
         sum_metric acc \<le> sum_metric acc' \<and>
         sum_metric acc' - sum_metric acc \<le> real (num_inst acc') - real (num_inst acc) \<and>
         num_inst acc' = num_inst acc + sum_list (map (\<lambda>b. length (snd b)) bs)"
  using assms
proof (induction bs arbitrary: acc s)
  case Nil
  then show ?case by simp
next
  case (Cons b bs)
  obtain data label where b: "b = (data, label)" by (cases b)
  from Cons.prems obtain data' out s1 acc1 where
    "reshape_784 data = Some data'" and nc: "net_call data' s = Some (out, s1)"
    and up: "Accuracy_update (map argmax out) label acc = Some acc1"
    and rest: "evaluate_batches bs acc1 s1 = Some (acc', s')"
    by (auto simp: b split: Option.bind_splits)
  note f = net_call_frame[OF nc]
  note u = Accuracy_update_bounds[OF up]
  have d1: "deferred s1 = None" by (simp add: f finish_init_fields)
  have n1: "deferred s = None \<longrightarrow> net s1 = net s" by (simp add: f finish_init_allocated)
  from Cons.IH[OF rest] show ?case using f u d1 n1 by (simp add: b finish_init_fields)
qed

lemma evaluate_accuracy_frame:
  assumes "evaluate_accuracy perms it s = Some (a, s')"
  shows "(deferred s = None \<longrightarrow> net s' = net s \<and> deferred s' = None) \<and>
         grads s' = grads s \<and> cumulative_loss s' = cumulative_loss s \<and>
         console s' = console s"
    and "\<exists>bs s1. iterate perms it s = Some (bs, s1) \<and>
          (if list_all (\<lambda>b. snd b = []) bs then a = NaN
           else \<exists>r. a = Float r \<and> 0 \<le> r \<and> r \<le> 1)"
proof -
  from assms obtain bs s1 acc where it: "iterate perms it s = Some (bs, s1)"
    and ev: "evaluate_batches bs Accuracy_init s1 = Some (acc, s')"
    and a: "a = Accuracy_get acc"
    by (auto simp: evaluate_accuracy_def split: Option.bind_splits)
  have s1: "net s1 = net s \<and> deferred s1 = deferred s \<and> grads s1 = grads s \<and>
         cumulative_loss s1 = cumulative_loss s \<and> console s1 = console s"
    using it by (auto simp: iterate_def split: if_splits)
  note f = evaluate_batches_frame[OF ev]
  show "(deferred s = None \<longrightarrow> net s' = net s \<and> deferred s' = None) \<and>
         grads s' = grads s \<and> cumulative_loss s' = cumulative_loss s \<and>
         console s' = console s"
    using f s1 by simp
  have n: "num_inst acc = sum_list (map (\<lambda>b. length (snd b)) bs)"
    and lo: "0 \<le> sum_metric acc" and hi: "sum_metric acc \<le> real (num_inst acc)"
    using f by (simp_all add: Accuracy_init_def)
  have z: "num_inst acc = 0 \<longleftrightarrow> list_all (\<lambda>b. snd b = []) bs"
    unfolding n by (induction bs) auto
  have "if list_all (\<lambda>b. snd b = []) bs then a = NaN else \<exists>r. a = Float r \<and> 0 \<le> r \<and> r \<le> 1"
  proof (cases "num_inst acc = 0")
    case True
    then show ?thesis using z by (simp add: a Accuracy_get_def)
  next
    case False
    then have "sum_metric acc / real (num_inst acc) \<le> 1" using hi by simp
    moreover have "0 \<le> sum_metric acc / real (num_inst acc)" using lo by simp
    ultimately show ?thesis using False z by (simp add: a Accuracy_get_def)
  qed
  then show "\<exists>bs s1. iterate perms it s = Some (bs, s1) \<and>
          (if list_all (\<lambda>b. snd b = []) bs then a = NaN
           else \<exists>r. a = Float r \<and> 0 \<le> r \<and> r \<le> 1)"
    using it by blast
qed

subsection \<open>The training loop on valid data\<close>

lemma net_shapes_zero_net: "net_shapes zero_net"
  by (simp add: net_shapes_def zero_net_def net_init_def param_shapes_def has_shape_replicate)

lemma valid_dataset_blank: "valid_dataset (replicate n blank_image)"
  by (simp add: valid_dataset_def blank_image_def list_all_iff)

lemma train_pass_samples:
  assumes "mset p = mset [0..<length tr]"
  shows "mset (concat (map samples_of (batches_of (train_data tr) p))) = mset (transformed tr)"
proof -
  have "length (transformed tr) = length tr" by (simp add: transformed_def)
  then have c2: "map (\<lambda>i. transformed tr ! i) [0..<length tr] = transformed tr" by (metis map_nth)
  have smp: "concat (map samples_of (batches_of (train_data tr) p)) = map (\<lambda>i. transformed tr ! i) p"
    using concat_samples[of tr batch_size p]
    by (simp add: batches_of_def train_data_def sampler_def comp_def)
  have "mset (map (\<lambda>i. transformed tr ! i) p) = mset (map (\<lambda>i. transformed tr ! i) [0..<length tr])"
    using assms by (metis mset_map)
  then show ?thesis using smp c2 by simp
qed

lemma sgd_step_entry:
  assumes "l < length n"
  shows "i < length (weight (n ! l)) \<Longrightarrow> j < length (weight (n ! l) ! i) \<Longrightarrow>
           weight (sgd_step m g n ! l) ! i ! j =
           weight (n ! l) ! i ! j - 1 / 100 * (1 / real m * fst (g l) i j)"
    and "i < length (bias (n ! l)) \<Longrightarrow>
           bias (sgd_step m g n ! l) ! i = bias (n ! l) ! i - 1 / 100 * (1 / real m * snd (g l) i)"
  using assms
  by (simp_all add: sgd_step_def update_layer_def nth_enumerate_eq sgd_update_def learning_rate_def)

lemma training_loop_runs:
  assumes "ready s" and "valid_dataset tr" and "valid_dataset te"
    and "\<And>k. mset (perms k) = mset [0..<length tr]"
  shows "\<exists>ss. length ss = 10 \<and>
     training_loop ag perms tr te s = Some (last (s # ss)) \<and>
     (\<forall>e<10. ready ((s # ss) ! e) \<and>
         epoch ag perms tr te e ((s # ss) ! e) = Some (ss ! e)) \<and>
     console (last (s # ss)) = console s @ map2 (report_of tr te) [0..<10] ss"
proof -
  from run_epochs_runs[where perms = perms and ag = ag and es = "[0..<10]", OF assms]
  obtain ss where ss: "length ss = length [0..<10::nat]"
    "run_epochs ag perms tr te [0..<10] s = Some (last (s # ss))"
    "\<forall>i<length [0..<10::nat]. ready ((s # ss) ! i) \<and>
         epoch ag perms tr te ([0..<10] ! i) ((s # ss) ! i) = Some (ss ! i)"
    "console (last (s # ss)) = console s @ map2 (report_of tr te) [0..<10] ss"
    by blast
  have "\<forall>e<10. ready ((s # ss) ! e) \<and>
         epoch ag perms tr te e ((s # ss) ! e) = Some (ss ! e)"
  proof (intro allI impI)
    fix e :: nat assume e: "e < 10"
    then have "[0..<10] ! e = e" by simp
    then show "ready ((s # ss) ! e) \<and> epoch ag perms tr te e ((s # ss) ! e) = Some (ss ! e)"
      using ss(3) e by (metis length_upt diff_zero)
  qed
  then show ?thesis using ss(1,2,4) by (auto simp: training_loop_def epochs_def)
qed


lemma epoch_steps_runs:
  assumes "ready s" and "valid_dataset tr" and "valid_dataset te"
    and "\<And>k. mset (perms k) = mset [0..<length tr]"
    and "epoch ag perms tr te e s = Some s'"
  shows "epoch_steps ag perms tr te s s'"
  using epoch_runs[where perms = perms and ag = ag and e = e, OF assms(1-4)] assms(5)
    train_pass_samples[OF assms(4)]
  by (auto simp: epoch_steps_def Let_def)

lemma train_batch_steps:
  assumes "ready s" and "valid_batch b"
  shows "train_batch ag b s = Some (batch_steps ag b s)"
  using train_batch_runs[OF assms, where ag = ag]
  by (auto simp: batch_steps_def batch_loss_def training_calls_def)

subsection \<open>Evaluating the zero network on a blank image\<close>

lemma FullyConnected_zero:
  "0 < k \<Longrightarrow> FullyConnected [replicate k c] (replicate m (replicate k 0)) (replicate m 0) m
     = Some [replicate m 0]"
  by (simp add: FullyConnected_def list_all_iff dot_def sum_list_replicate)

lemma relu_zero: "relu [replicate m 0] = [replicate m 0]"
  by (simp add: relu_def)

lemma zero_net_forward: "Sequential_forward zero_net [replicate 784 c] = Some [replicate 10 0]"
  by (simp add: zero_net_def net_init_def Dense_call_def apply_activation_def
      num_hidden_def num_outputs_def FullyConnected_zero relu_zero)

lemma blank_batches:
  "batches_of (train_data [blank_image]) [0] = [([replicate 784 0], [0])]"
  "batches_of (test_data [blank_image]) [] = [([replicate 784 0], [0])]"
  "transformed [blank_image] = [(replicate 784 0, 0)]"
  by (simp_all add: batches_of_def train_data_def test_data_def sampler_def batch_size_def
      batch_of_def transformed_def transform_def blank_image_def)

lemma argmax_zeros: "argmax (replicate 10 0) = 0"
  by (simp add: argmax_def numeral_eq_Suc)

lemma zero_net_correct: "correct zero_net (replicate 784 0, 0)"
  by (simp add: correct_def score_def zero_net_forward argmax_zeros)

lemma zero_net_accuracy: "accuracy_over zero_net [(replicate 784 0, 0)] = Float 1"
  by (simp add: accuracy_over_def zero_net_correct)

lemma zero_net_loss: "batch_loss zero_net ([replicate 784 0], [0]) = [ln 10]"
  by (simp add: batch_loss_def zero_net_forward softmax_cross_entropy_def log_softmax_def
      pick_def astype_int32_def sum_list_replicate)

lemma map_enumerate_snd: "map (\<lambda>(i, x). f x) (enumerate n xs) = map f xs"
  by (induction xs arbitrary: n) auto

lemma sgd_step_zero: "sgd_step m (\<lambda>l. (\<lambda>i j. 0, \<lambda>i. 0)) params = params"
proof -
  have "update_layer r (\<lambda>i j. 0, \<lambda>i. 0) d = d" for r d
    by (simp add: update_layer_def sgd_update_def map_enumerate_snd)
  then show ?thesis by (simp add: sgd_step_def map_enumerate_snd)
qed

lemma sgd_step_zero_grad: "sgd_step m (zero_grad n data label) params = params"
  by (simp add: zero_grad_def sgd_step_zero)

lemma epoch_report_runs:
  assumes "ready s" and "valid_dataset tr" and "valid_dataset te"
    and "\<And>k. mset (perms k) = mset [0..<length tr]"
    and "length tr = num_examples"
    and "epoch ag perms tr te e s = Some s'"
  shows "epoch_report ag perms tr te e s s'"
  using epoch_runs[where perms = perms and ag = ag and e = e, OF assms(1-4)] assms(5,6)
  by (auto simp: epoch_report_def report_of_def Let_def)


lemma blank_valid:
  "ready (initial_state zero_net)" "valid_dataset [blank_image]"
  "mset [0] = mset [0..<length [blank_image]]" "valid_batch ([replicate 784 0], [0])"
  using valid_dataset_blank[of 1]
  by (simp_all add: ready_def initial_state_def net_shapes_zero_net valid_batch_def has_shape_def)

lemma dot_zero: "dot x (replicate k 0) = 0"
proof -
  have "sum_list (map ((\<lambda>(x, y). x * y) \<circ> (\<lambda>x. (x, 0::real))) ys) = 0" for ys
    by (induction ys) auto
  then show ?thesis by (simp add: dot_def zip_replicate2)
qed

lemma FullyConnected_zero_rows:
  assumes "list_all (\<lambda>r. length r = k) xs"
  shows "FullyConnected xs (replicate m (replicate k 0)) (replicate m 0) m =
           Some (replicate (length xs) (replicate m 0))"
proof -
  have "map (\<lambda>r. map2 (\<lambda>wr bi. dot r wr + bi) (replicate m (replicate k 0)) (replicate m 0)) xs
      = replicate (length xs) (replicate m 0)"
    by (induction xs) (auto simp: dot_zero)
  then show ?thesis using assms by (auto simp: FullyConnected_def list_all_iff)
qed

lemma relu_zero_rows: "relu (replicate n (replicate m 0)) = replicate n (replicate m 0)"
  by (simp add: relu_def)

lemma zero_net_forward_rows:
  assumes "has_shape n 784 xs"
  shows "Sequential_forward zero_net xs = Some (replicate n (replicate 10 0))"
proof -
  from assms have a: "list_all (\<lambda>r. length r = 784) xs" and n: "length xs = n"
    by (simp_all add: has_shape_def)
  have b: "list_all (\<lambda>r. length r = 64) (replicate n (replicate 64 (0::real)))"
    by (simp add: list_all_iff)
  show ?thesis
    using FullyConnected_zero_rows[OF a, of 64] FullyConnected_zero_rows[OF b, of 64]
      FullyConnected_zero_rows[OF b, of 10] n
    by (simp add: zero_net_def net_init_def Dense_call_def apply_activation_def
        num_hidden_def num_outputs_def relu_zero_rows)
qed

lemma pick_replicate: "pick (replicate 10 c) idx = Some c"
proof -
  have "nat (min (max (astype_int32 idx) 0) 9) < 10" by linarith
  then show ?thesis by (simp add: pick_def)
qed

lemma zero_scores_loss:
  assumes "length label = n"
  shows "softmax_cross_entropy (replicate n (replicate 10 0)) label = Some (replicate n (ln 10))"
proof -
  have ls: "log_softmax (replicate 10 0) = replicate 10 (- ln 10)"
    by (simp add: log_softmax_def sum_list_replicate)
  have "those (map ((\<lambda>(x, y). map_option uminus (pick (log_softmax x) y)) \<circ>
                   Pair (replicate 10 0)) ys) = Some (replicate (length ys) (ln 10))" for ys :: vec
    by (induction ys) (auto simp: ls pick_replicate)
  then show ?thesis using assms
    by (simp add: softmax_cross_entropy_def zip_replicate1)
qed

lemma zero_net_batch_loss:
  assumes "valid_batch b"
  shows "batch_loss zero_net b = replicate (length (snd b)) (ln 10)"
  using assms zero_net_forward_rows[of "length (snd b)" "fst b"] zero_scores_loss[of "snd b"]
  by (simp add: batch_loss_def valid_batch_def)

lemma map_epoch_no_reports:
  "length es = length ss \<Longrightarrow> map epoch_no (map2 (report_of tr te) es ss) = es"
  by (induction es ss rule: list_induct2) (auto simp: report_of_def)

lemma upt_10: "[0..<10] = [0, 1, 2, 3, 4, 5, 6, 7, 8, 9::nat]"
  by (simp add: upt_rec)

lemma batch_loss_length:
  assumes "net_shapes n" and "valid_batch b"
  shows "length (batch_loss n b) = length (snd b)"
proof -
  from assms(2) have shp: "has_shape (length (snd b)) 784 (fst b)" by (simp add: valid_batch_def)
  from net_shapes_forward[OF assms(1) shp] obtain out
    where out: "Sequential_forward n (fst b) = Some out" "has_shape (length (snd b)) num_outputs out"
    by blast
  from softmax_cross_entropy_Some[OF out(2) _ refl] obtain loss
    where "softmax_cross_entropy out (snd b) = Some loss" "length loss = length (snd b)"
    by (auto simp: num_outputs_def)
  then show ?thesis using out(1) by (simp add: batch_loss_def)
qed

subsection \<open>The layers as affine transforms and rectified-linear activations\<close>

lemma dot_sum: "length u = length v \<Longrightarrow> dot u v = (\<Sum>k<length u. u ! k * v ! k)"
  by (simp add: dot_def sum_list_sum_nth atLeast0LessThan)

lemma FullyConnected_affine:
  assumes "FullyConnected x w b m = Some y" shows "y = map (affine w b) x"
proof -
  from assms have w: "length w = length b"
    and r: "\<And>r wr. r \<in> set x \<Longrightarrow> wr \<in> set w \<Longrightarrow> length wr = length r"
    and y: "y = map (\<lambda>r. map2 (\<lambda>wr bi. dot r wr + bi) w b) x"
    by (auto simp: FullyConnected_def list_all_iff split: if_splits)
  have "map2 (\<lambda>wr bi. dot r wr + bi) w b = affine w b r" if "r \<in> set x" for r
  proof (rule nth_equalityI)
    show "length (map2 (\<lambda>wr bi. dot r wr + bi) w b) = length (affine w b r)"
      using w by (simp add: affine_def)
    fix j assume "j < length (map2 (\<lambda>wr bi. dot r wr + bi) w b)"
    then have j: "j < length w" "j < length b" by simp_all
    then have "length r = length (w ! j)" using r[OF that, of "w ! j"] by simp
    then show "map2 (\<lambda>wr bi. dot r wr + bi) w b ! j = affine w b r ! j"
      using j by (simp add: affine_def dot_sum)
  qed
  then show ?thesis unfolding y by simp
qed

lemma relu_rectified: "relu h = map (map rectified) h"
proof -
  have "max 0 v = rectified v" for v :: real by (simp add: rectified_def max_def)
  then show ?thesis by (simp add: relu_def)
qed

lemma dot_replicate: "dot (replicate k c) (replicate k a) = real k * (c * a)"
  by (simp add: dot_def zip_replicate sum_list_replicate)

lemma FullyConnected_const:
  "length b = m \<Longrightarrow>
   FullyConnected [replicate k c] (replicate m (replicate k a)) b m
     = Some [map (\<lambda>bi. real k * (c * a) + bi) b]"
  by (simp add: FullyConnected_def list_all_iff dot_replicate zip_replicate1 comp_def)

lemma relu_row: "relu [replicate m c] = [replicate m (max 0 c)]"
  by (simp add: relu_def)

lemma forward_values:
  assumes "FullyConnected x w0 b0 64 = Some h0"
    and "FullyConnected (relu h0) w1 b1 64 = Some h1"
    and "FullyConnected (relu h1) w2 b2 10 = Some y"
  shows "h0 = map (affine w0 b0) x"
    and "h1 = map (\<lambda>r. affine w1 b1 (map rectified r)) h0"
    and "y = map (\<lambda>r. affine w2 b2 (map rectified r)) h1"
  using FullyConnected_affine[OF assms(1)] FullyConnected_affine[OF assms(2)]
    FullyConnected_affine[OF assms(3)]
  by (simp_all add: relu_rectified comp_def)

subsection \<open>The first forward pass\<close>

lemma train_batch_finish:
  assumes "valid_batch b" shows "train_batch ag b s = train_batch ag b (finish_init 784 s)"
proof -
  obtain data label where b: "b = (data, label)" by (cases b)
  from assms have shp: "has_shape (length label) 784 data" and ne: "label \<noteq> []"
    by (simp_all add: valid_batch_def b)
  have k: "in_units_of data = 784" using shp ne by (intro in_units_of_rows) auto
  have "net_call data s = net_call data (finish_init 784 s)"
    by (simp add: net_call_def k finish_init_idem)
  then show ?thesis by (simp add: train_batch_def b reshape_784_id[OF shp])
qed

lemma batch_sampler_Nil: "batch_sampler n [] idxs = [] \<Longrightarrow> idxs = []"
  using concat_batch_sampler[of n "[]" idxs] by simp

lemma epoch_finish:
  assumes "valid_dataset tr" and "tr \<noteq> []"
    and "\<And>k. mset (perms k) = mset [0..<length tr]"
  shows "epoch ag perms tr te e s = epoch ag perms tr te e (finish_init 784 s)"
proof -
  let ?p = "perms (draws s)"
  let ?bs = "batches_of (train_data tr) ?p"
  let ?s1 = "s\<lparr>cumulative_loss := 0, draws := Suc (draws s)\<rparr>"
  have v: "valid_dataset (dataset (train_data tr))" using assms(1) by (simp add: train_data_def)
  have r: "\<And>i. i \<in> set (sampler (train_data tr) ?p) \<Longrightarrow> i < length (dataset (train_data tr))"
    using perm_bound[OF assms(3)] by (simp add: sampler_def train_data_def)
  note b = batches_of_valid[where dl = "train_data tr" and perm = ?p, OF v r]
  have it: "iterate perms (train_data tr) (t\<lparr>cumulative_loss := 0\<rparr>) =
      Some (?bs, t\<lparr>cumulative_loss := 0, draws := Suc (draws s)\<rparr>)"
    if "draws t = draws s" for t :: state
    using b(2) that by (simp add: iterate_def train_data_def)
  have "length ?p = length tr" using mset_eq_length[OF assms(3)[of "draws s"]] by simp
  then have "?p \<noteq> []" using assms(2) by auto
  then have "?bs \<noteq> []"
    using batch_sampler_Nil[of batch_size ?p]
    by (auto simp: batches_of_def train_data_def sampler_def)
  then obtain b0 bs where bs: "?bs = b0 # bs" by (cases ?bs) auto
  then have "valid_batch b0" using b(1) by simp
  then have "train_batches ag ?bs ?s1 = train_batches ag ?bs (finish_init 784 ?s1)"
    unfolding bs using train_batch_finish[of b0 ag ?s1] by simp
  also have "finish_init 784 ?s1 = (finish_init 784 s)\<lparr>cumulative_loss := 0, draws := Suc (draws s)\<rparr>"
    by (simp add: finish_init_update)
  finally show ?thesis
    using it[of s] it[of "finish_init 784 s"]
    by (simp add: epoch_def finish_init_fields)
qed

lemma training_loop_finish:
  assumes "deferred s = None \<or> tr \<noteq> []" and "valid_dataset tr"
    and "\<And>k. mset (perms k) = mset [0..<length tr]"
  shows "training_loop ag perms tr te s = training_loop ag perms tr te (finish_init 784 s)"
proof (cases "deferred s")
  case None
  then show ?thesis by (simp add: finish_init_allocated)
next
  case (Some draw)
  with assms(1) have "tr \<noteq> []" by simp
  from epoch_finish[where perms = perms, OF assms(2) this assms(3)]
  have "epoch ag perms tr te 0 s = epoch ag perms tr te 0 (finish_init 784 s)" .
  moreover have "[0..<epochs] = 0 # [1..<epochs]" by (simp add: epochs_def upt_rec)
  ultimately show ?thesis by (simp add: training_loop_def)
qed

lemma tab_replicate: "map (\<lambda>i. map (\<lambda>j. c) [0..<k]) [0..<m] = replicate m (replicate k c)"
  by (simp add: map_replicate_const del: upt_rec_numeral)

lemma finish_deferred_init_net:
  "finish_deferred_init draw 0 k (net_init w0 b0 w1 b1 w2 b2) =
     net_init (map (\<lambda>i. map (draw 0 i) [0..<k]) [0..<num_hidden]) b0
              (map (\<lambda>i. map (draw 1 i) [0..<num_hidden]) [0..<num_hidden]) b1
              (map (\<lambda>i. map (draw 2 i) [0..<num_hidden]) [0..<num_outputs]) b2"
  by (simp add: net_init_def numeral_2_eq_2)

lemma tab_shape: "has_shape m k (map (\<lambda>i. map (f i) [0..<k]) [0..<m])"
  by (simp add: has_shape_def list_all_iff)

lemma finish_script_state:
  "finish_init 784 (script_state (\<lambda>l i j. 0)) = initial_state zero_net"
  by (simp add: finish_init_def script_state_def finish_deferred_init_net tab_replicate
      initial_state_def zero_net_def num_hidden_def num_outputs_def)

lemma net_shapes_net_init:
  "param_shapes w0 b0 w1 b1 w2 b2 \<Longrightarrow> net_shapes (net_init w0 b0 w1 b1 w2 b2)"
  by (simp add: net_shapes_def net_init_def)

lemma net_shapes_finish: "net_shapes (net (finish_init 784 (script_state draw)))"
  by (simp add: finish_init_def script_state_def finish_deferred_init_net net_shapes_net_init
      param_shapes_def tab_shape num_hidden_def num_outputs_def)

subsection \<open>What an evaluation and a training batch read of the state\<close>





subsection \<open>Evaluating the concrete networks\<close>







lemma net_shapes_bright_net: "net_shapes bright_net"
proof -
  have "has_shape 10 64 [replicate 64 0, replicate 64 0, replicate 64 0, replicate 64 0,
                          replicate 64 0, replicate 64 0, replicate 64 0, replicate 64 (1::real),
                          replicate 64 0, replicate 64 0]"
    by (simp add: has_shape_def)
  then show ?thesis
    by (simp add: bright_net_def net_shapes_net_init param_shapes_def has_shape_replicate)
qed

lemma FullyConnected_ten:
  "FullyConnected [replicate 64 c]
     [replicate 64 0, replicate 64 0, replicate 64 0, replicate 64 0, replicate 64 0,
      replicate 64 0, replicate 64 0, replicate 64 1, replicate 64 0, replicate 64 0]
     (replicate 10 0) 10 = Some [[0, 0, 0, 0, 0, 0, 0, 64 * c, 0, 0]]"
proof -
  have "replicate 10 (0::real) = [0, 0, 0, 0, 0, 0, 0, 0, 0, 0]" by (simp add: numeral_eq_Suc)
  then show ?thesis by (simp add: FullyConnected_def dot_replicate)
qed

lemma bright_net_forward:
  "Sequential_forward bright_net [replicate 784 c] =
     Some [[0, 0, 0, 0, 0, 0, 0, 64 * max 0 (64 * max 0 (784 * c)), 0, 0]]"
  by (simp add: bright_net_def net_init_def Dense_call_def apply_activation_def
      num_hidden_def num_outputs_def FullyConnected_const relu_row FullyConnected_ten)

lemma bright_net_score:
  "score bright_net (replicate 784 0) = [0, 0, 0, 0, 0, 0, 0, 0, 0, 0]"
  "score bright_net (replicate 784 1) = [0, 0, 0, 0, 0, 0, 0, 3211264, 0, 0]"
  by (simp_all add: score_def bright_net_forward)

lemma bright_net_hits:
  "hit bright_net (replicate 784 0, 0)" "hit bright_net (replicate 784 255, 7)"
  "\<not> hit bright_net (replicate 784 255, 3)"
  by (simp_all add: hit_def transform_def bright_net_score first_max_def)

lemma bright_net_accuracy:
  "accuracy bright_net two_tone = Float (2 / 3)"
  "accuracy bright_net mnist_sized = Float 1"
  by (simp_all add: accuracy_def two_tone_def bright_net_hits mnist_sized_def blank_image_def)

lemma two_tone_valid: "valid_dataset two_tone"
  by (simp add: valid_dataset_def two_tone_def)

section \<open>The claims of the specification\<close>

text \<open>
  Claim C1. For an input batch of shape \<open>(n, 784)\<close> and parameters of the shapes the
  network has on 784 inputs, the forward pass succeeds and returns class scores of shape
  \<open>(n, num_outputs)\<close>, that is \<open>(n, 10)\<close>. Row by row, the first hidden values are
  the affine transform of the input row by the first weight and bias, 64 values; the
  second hidden values are the affine transform, by the second weight and bias, of the
  rectified first ones, 64 values again; and the scores are the affine transform, by the
  third weight and bias, of the rectified second ones. This holds for the forward pass
  of the \<open>MLP\<close> block and for that of the sequential network.
\<close>

theorem forward_shape:
  assumes "param_shapes w0 b0 w1 b1 w2 b2" and "has_shape n 784 x"
  shows "\<exists>h0 h1 y.
     FullyConnected x w0 b0 64 = Some h0 \<and> has_shape n 64 h0 \<and>
     FullyConnected (relu h0) w1 b1 64 = Some h1 \<and> has_shape n 64 h1 \<and>
     FullyConnected (relu h1) w2 b2 10 = Some y \<and> has_shape n num_outputs y \<and>
     MLP_forward (MLP_init w0 b0 w1 b1 w2 b2) x = Some y \<and>
     Sequential_forward (net_init w0 b0 w1 b1 w2 b2) x = Some y \<and>
     h0 = map (affine w0 b0) x \<and>
     h1 = map (\<lambda>r. affine w1 b1 (map rectified r)) h0 \<and>
     y = map (\<lambda>r. affine w2 b2 (map rectified r)) h1"
proof -
  from forward_layers[OF assms] obtain h0 h1 y where l:
    "FullyConnected x w0 b0 64 = Some h0" "has_shape n 64 h0"
    "FullyConnected (relu h0) w1 b1 64 = Some h1" "has_shape n 64 h1"
    "FullyConnected (relu h1) w2 b2 10 = Some y" "has_shape n num_outputs y"
    "MLP_forward (MLP_init w0 b0 w1 b1 w2 b2) x = Some y"
    "Sequential_forward (net_init w0 b0 w1 b1 w2 b2) x = Some y"
    by blast
  note v = forward_values[OF l(1,3,5)]
  show ?thesis using l v by blast
qed

text \<open>
  The theorem at the input of the notebook, \<open>nd.ones((1,784))\<close>, with first weights
  all \<open>-1\<close> and first biases all 1, second weights all 1 and second biases all 2, third
  weights all 1 and third biases 0 to 9. The first hidden values are \<open>-783\<close>, which
  the activation replaces by 0; the second hidden values are 2; the scores are 128 to
  137.
\<close>

theorem forward_shape_witness:
  "param_shapes (replicate 64 (replicate 784 (- 1))) (replicate 64 1)
     (replicate 64 (replicate 64 1)) (replicate 64 2)
     (replicate 10 (replicate 64 1)) [0, 1, 2, 3, 4, 5, 6, 7, 8, 9] \<and>
   has_shape 1 784 [replicate 784 (1::real)] \<and>
   MLP_forward (MLP_init (replicate 64 (replicate 784 (- 1))) (replicate 64 1)
       (replicate 64 (replicate 64 1)) (replicate 64 2)
       (replicate 10 (replicate 64 1)) [0, 1, 2, 3, 4, 5, 6, 7, 8, 9]) [replicate 784 1]
     = Some [[128, 129, 130, 131, 132, 133, 134, 135, 136, 137]] \<and>
   Sequential_forward (net_init (replicate 64 (replicate 784 (- 1))) (replicate 64 1)
       (replicate 64 (replicate 64 1)) (replicate 64 2)
       (replicate 10 (replicate 64 1)) [0, 1, 2, 3, 4, 5, 6, 7, 8, 9]) [replicate 784 1]
     = Some [[128, 129, 130, 131, 132, 133, 134, 135, 136, 137]] \<and>
   has_shape 1 10 [[128, 129, 130, 131, 132, 133, 134, 135, 136, 137 :: real]] \<and>
   affine (replicate 64 (replicate 784 (- 1))) (replicate 64 1) (replicate 784 1)
     = replicate 64 (- 783) \<and>
   map rectified (replicate 64 (- 783)) = replicate 64 0 \<and>
   affine (replicate 64 (replicate 64 1)) (replicate 64 2) (replicate 64 0) = replicate 64 2 \<and>
   map rectified (replicate 64 2) = replicate 64 2 \<and>
   affine (replicate 10 (replicate 64 1)) [0, 1, 2, 3, 4, 5, 6, 7, 8, 9] (replicate 64 2)
     = [128, 129, 130, 131, 132, 133, 134, 135, 136, 137]"
proof -
  let ?w0 = "replicate 64 (replicate 784 (- 1 :: real))" and ?b0 = "replicate 64 (1::real)"
  let ?w1 = "replicate 64 (replicate 64 (1::real))" and ?b1 = "replicate 64 (2::real)"
  let ?w2 = "replicate 10 (replicate 64 (1::real))"
  let ?b2 = "[0, 1, 2, 3, 4, 5, 6, 7, 8, 9 :: real]"
  let ?y = "[[128, 129, 130, 131, 132, 133, 134, 135, 136, 137 :: real]]"
  have p: "param_shapes ?w0 ?b0 ?w1 ?b1 ?w2 ?b2"
    by (simp add: param_shapes_def has_shape_replicate)
  have x: "has_shape 1 784 [replicate 784 (1::real)]" by (simp add: has_shape_def)
  have r: "map rectified (replicate 64 (- 783)) = replicate 64 0"
    "map rectified (replicate 64 2) = replicate 64 2"
    by (simp_all add: rectified_def)
  from forward_shape[OF p x] obtain h0 h1 y where l:
    "FullyConnected [replicate 784 1] ?w0 ?b0 64 = Some h0"
    "FullyConnected (relu h0) ?w1 ?b1 64 = Some h1"
    "FullyConnected (relu h1) ?w2 ?b2 10 = Some y"
    "MLP_forward (MLP_init ?w0 ?b0 ?w1 ?b1 ?w2 ?b2) [replicate 784 1] = Some y"
    "Sequential_forward (net_init ?w0 ?b0 ?w1 ?b1 ?w2 ?b2) [replicate 784 1] = Some y"
    "h0 = map (affine ?w0 ?b0) [replicate 784 1]"
    "h1 = map (\<lambda>r. affine ?w1 ?b1 (map rectified r)) h0"
    "y = map (\<lambda>r. affine ?w2 ?b2 (map rectified r)) h1"
    by blast
  have h0: "h0 = [replicate 64 (- 783)]" using l(1) by (simp add: FullyConnected_const)
  have h1: "h1 = [replicate 64 2]" using l(2) by (simp add: h0 FullyConnected_const relu_row)
  have y: "y = ?y" using l(3) by (simp add: h1 FullyConnected_const relu_row)
  have a0: "affine ?w0 ?b0 (replicate 784 1) = replicate 64 (- 783)" using l(6) h0 by simp
  have a1: "affine ?w1 ?b1 (replicate 64 0) = replicate 64 2" using l(7) h0 h1 r by simp
  have a2: "affine ?w2 ?b2 (replicate 64 2) = [128, 129, 130, 131, 132, 133, 134, 135, 136, 137]"
    using l(8) h1 y r by simp
  have s: "has_shape 1 10 ?y" by (simp add: has_shape_def)
  show ?thesis using p x l(4,5) y s a0 a1 a2 r by blast
qed

text \<open>
  Claim C2. The hand-written block (\<open>dense0\<close>, relu, \<open>dense1\<close>, relu, \<open>dense2\<close>) and the
  sequential stack (\<open>Dense(64, relu)\<close>, \<open>Dense(64, relu)\<close>, \<open>Dense(10)\<close>) return the
  same output for every input, whenever corresponding layers hold the same weight
  matrices and bias vectors. Both raise on the same inputs.
\<close>

theorem MLP_Sequential_equiv:
  "MLP_forward (MLP_init w0 b0 w1 b1 w2 b2) x = Sequential_forward (net_init w0 b0 w1 b1 w2 b2) x"
  by (simp add: MLP_forward_def MLP_init_def net_init_def Dense_call_def apply_activation_def
      num_hidden_def num_outputs_def option.map_comp comp_def
      split: option.split)

text \<open>
  The equivalence at the input of the notebook with all parameters zero, where both
  return ten zero scores, and at a one-column input, on which both raise.
\<close>

theorem MLP_Sequential_equiv_witness:
  "MLP_forward (MLP_init (replicate 64 (replicate 784 0)) (replicate 64 0)
       (replicate 64 (replicate 64 0)) (replicate 64 0)
       (replicate 10 (replicate 64 0)) (replicate 10 0)) [replicate 784 1] = Some [replicate 10 0] \<and>
   Sequential_forward zero_net [replicate 784 1] = Some [replicate 10 0] \<and>
   MLP_forward (MLP_init (replicate 64 (replicate 784 0)) (replicate 64 0)
       (replicate 64 (replicate 64 0)) (replicate 64 0)
       (replicate 10 (replicate 64 0)) (replicate 10 0)) [[1]] = None \<and>
   Sequential_forward zero_net [[1]] = None"
proof -
  have 1: "Sequential_forward zero_net [replicate 784 1] = Some [replicate 10 0]"
    by (rule zero_net_forward)
  have 2: "Sequential_forward zero_net [[1]] = None"
    by (simp add: zero_net_def net_init_def Dense_call_def FullyConnected_def num_hidden_def
        list_all_iff)
  show ?thesis
    using 1 2
      MLP_Sequential_equiv[of "replicate 64 (replicate 784 0)" "replicate 64 0"
        "replicate 64 (replicate 64 0)" "replicate 64 0" "replicate 10 (replicate 64 0)"
        "replicate 10 0"]
    by (simp add: zero_net_def)
qed

text \<open>
  Claim C3, as the code has it. The training loop is entered in a state \<open>s\<close>; \<open>s0\<close> is
  that state once the first batch of 784 columns has finished an initialisation that was
  deferred, and is \<open>s\<close> itself when the parameters are allocated already. On valid data
  (in \<open>s0\<close> the network has its parameters allocated, the datasets hold 784-pixel
  images, the sampler permutes the training indices, and the training set is not empty
  if the initialisation is still deferred) the training loop runs to completion through
  its 10 epochs. Every epoch iterates all training batches, and for every batch, in this
  order, computes the forward output on the batch reshaped to \<open>(-1, 784)\<close>, computes
  the softmax cross-entropy loss, a vector with one value per sample of the batch,
  computes the gradients by automatic differentiation, and applies one optimizer step
  with the batch size: every weight and bias entry \<open>w\<close> becomes
  \<open>w - 0.01 * (1 / n * g)\<close> for its gradient entry \<open>g\<close> and the batch size \<open>n\<close>. The
  sum of the per-sample losses is added to the epoch's accumulator. The reshape keeps
  the values of the batch in their row-major order and puts them in rows of 784, and
  raises when their number is not a multiple of 784. The loss of a sample with the
  scores \<open>x\<close> and a label \<open>l\<close> among the positions of \<open>x\<close> is
  \<open>ln (exp x\<^sub>0 + ... + exp x\<^sub>k) - x\<^sub>l\<close>.
\<close>

theorem training_loop_steps:
  assumes "s0 = finish_init 784 s" and "net_shapes (net s0)" and "deferred s = None \<or> tr \<noteq> []"
    and "valid_dataset tr" and "valid_dataset te"
    and "\<And>k. mset (perms k) = mset [0..<length tr]"
  shows "epochs = 10 \<and>
     (\<exists>ss. length ss = epochs \<and>
        training_loop ag perms tr te s = Some (last (s0 # ss)) \<and>
        (\<forall>e<epochs. epoch ag perms tr te e ((s0 # ss) ! e) = Some (ss ! e) \<and>
                     epoch_steps ag perms tr te ((s0 # ss) ! e) (ss ! e))) \<and>
     (\<forall>b. valid_batch b \<longrightarrow> train_batch ag b s = Some (batch_steps ag b s0) \<and>
                          length (batch_loss (net s0) b) = length (snd b)) \<and>
     (\<forall>m g l i j. l < length (net s0) \<and> i < length (weight (net s0 ! l)) \<and>
                  j < length (weight (net s0 ! l) ! i) \<longrightarrow>
        weight (sgd_step m g (net s0) ! l) ! i ! j =
        weight (net s0 ! l) ! i ! j - 1 / 100 * (1 / real m * fst (g l) i j)) \<and>
     (\<forall>m g l i. l < length (net s0) \<and> i < length (bias (net s0 ! l)) \<longrightarrow>
        bias (sgd_step m g (net s0) ! l) ! i =
        bias (net s0 ! l) ! i - 1 / 100 * (1 / real m * snd (g l) i)) \<and>
     (\<forall>data. (length (concat data) mod 784 = 0 \<longrightarrow>
                (\<exists>d. reshape_784 data = Some d \<and> concat d = concat data \<and>
                     list_all (\<lambda>r. length r = 784) d)) \<and>
             (length (concat data) mod 784 \<noteq> 0 \<longrightarrow> reshape_784 data = None)) \<and>
     (\<forall>row l. 0 \<le> l \<and> l < int (length row) \<longrightarrow>
        softmax_cross_entropy [row] [real_of_int l] =
          Some [ln (sum_list (map exp row)) - row ! nat l])"
proof -
  have r: "ready s0" using assms(1,2) by (simp add: ready_def finish_init_fields)
  have start: "training_loop ag perms tr te s = training_loop ag perms tr te s0"
    unfolding assms(1) using assms(3,4,6) by (rule training_loop_finish[where perms = perms])
  from training_loop_runs[where perms = perms and ag = ag, OF r assms(4,5,6)] obtain ss
    where ss: "length ss = 10" "training_loop ag perms tr te s0 = Some (last (s0 # ss))"
      "\<forall>e<10. ready ((s0 # ss) ! e) \<and>
         epoch ag perms tr te e ((s0 # ss) ! e) = Some (ss ! e)"
    by blast
  have "epoch_steps ag perms tr te ((s0 # ss) ! e) (ss ! e)" if "e < 10" for e
    using ss(3) that epoch_steps_runs[where perms = perms, OF _ assms(4,5,6)] by blast
  then have loop: "\<exists>ss. length ss = epochs \<and>
        training_loop ag perms tr te s = Some (last (s0 # ss)) \<and>
        (\<forall>e<epochs. epoch ag perms tr te e ((s0 # ss) ! e) = Some (ss ! e) \<and>
                     epoch_steps ag perms tr te ((s0 # ss) ! e) (ss ! e))"
    using ss start unfolding epochs_def by auto
  have "train_batch ag b s = Some (batch_steps ag b s0)" if "valid_batch b" for b
    using train_batch_finish[OF that, of ag s] train_batch_steps[OF r that, of ag]
    by (simp add: assms(1))
  then have batch: "\<forall>b. valid_batch b \<longrightarrow> train_batch ag b s = Some (batch_steps ag b s0) \<and>
                          length (batch_loss (net s0) b) = length (snd b)"
    using batch_loss_length[OF assms(2)] by blast
  have step: "(\<forall>m g l i j. l < length (net s0) \<and> i < length (weight (net s0 ! l)) \<and>
                  j < length (weight (net s0 ! l) ! i) \<longrightarrow>
        weight (sgd_step m g (net s0) ! l) ! i ! j =
        weight (net s0 ! l) ! i ! j - 1 / 100 * (1 / real m * fst (g l) i j)) \<and>
     (\<forall>m g l i. l < length (net s0) \<and> i < length (bias (net s0 ! l)) \<longrightarrow>
        bias (sgd_step m g (net s0) ! l) ! i =
        bias (net s0 ! l) ! i - 1 / 100 * (1 / real m * snd (g l) i))"
    using sgd_step_entry[where n = "net s0"] by simp
  have shape: "\<forall>data. (length (concat data) mod 784 = 0 \<longrightarrow>
                (\<exists>d. reshape_784 data = Some d \<and> concat d = concat data \<and>
                     list_all (\<lambda>r. length r = 784) d)) \<and>
             (length (concat data) mod 784 \<noteq> 0 \<longrightarrow> reshape_784 data = None)"
    using reshape_784_regroups by blast
  have entropy: "\<forall>row l. 0 \<le> l \<and> l < int (length row) \<longrightarrow>
        softmax_cross_entropy [row] [real_of_int l] =
          Some [ln (sum_list (map exp row)) - row ! nat l]"
    using softmax_cross_entropy_row by blast
  have "epochs = 10" by (simp add: epochs_def)
  then show ?thesis using loop batch step shape entropy by blast
qed

text \<open>
  The theorem at a training set and a test set of one blank image each and zero
  gradients, entered once with the zero network allocated and once with the
  initialisation deferred and all draws zero: the first epoch makes the six expected
  calls, leaves the parameters zero and accumulates the loss \<open>ln 10\<close>; one optimizer
  step with unit gradients and batch size 1 takes a zero weight and a zero bias to
  \<open>-0.01\<close>. Two rows of 392 values are reshaped to one row of 784, a batch of three
  values cannot be reshaped, and the loss at the scores \<open>(0, ln 3)\<close> with the label 1
  is \<open>ln 4 - ln 3\<close>.
\<close>

theorem training_loop_steps_witness:
  "initial_state zero_net = finish_init 784 (initial_state zero_net) \<and>
   initial_state zero_net = finish_init 784 (script_state (\<lambda>l i j. 0)) \<and>
   net_shapes (net (initial_state zero_net)) \<and> deferred (initial_state zero_net) = None \<and>
   [blank_image] \<noteq> [] \<and> valid_dataset [blank_image] \<and>
   mset [0] = mset [0..<length [blank_image]] \<and> valid_batch ([replicate 784 0], [0]) \<and>
   (\<exists>ss. length ss = 10 \<and>
      training_loop zero_grad (\<lambda>k. [0]) [blank_image] [blank_image] (initial_state zero_net)
        = Some (last (initial_state zero_net # ss)) \<and>
      net (ss ! 0) = zero_net \<and> cumulative_loss (ss ! 0) = ln 10 \<and>
      calls (ss ! 0) = [Forward 1, Loss 1, Backward, Step 1, Forward 1, Forward 1]) \<and>
   train_batch zero_grad ([replicate 784 0], [0]) (initial_state zero_net) =
     Some ((initial_state zero_net)\<lparr>cumulative_loss := ln 10,
             calls := [Forward 1, Loss 1, Backward, Step 1]\<rparr>) \<and>
   (\<exists>ss. length ss = 10 \<and>
      training_loop zero_grad (\<lambda>k. [0]) [blank_image] [blank_image] (script_state (\<lambda>l i j. 0))
        = Some (last (initial_state zero_net # ss)) \<and>
      net (ss ! 0) = zero_net \<and> cumulative_loss (ss ! 0) = ln 10 \<and>
      calls (ss ! 0) = [Forward 1, Loss 1, Backward, Step 1, Forward 1, Forward 1]) \<and>
   train_batch zero_grad ([replicate 784 0], [0]) (script_state (\<lambda>l i j. 0)) =
     Some ((initial_state zero_net)\<lparr>cumulative_loss := ln 10,
             calls := [Forward 1, Loss 1, Backward, Step 1]\<rparr>) \<and>
   weight (sgd_step 1 (\<lambda>l. (\<lambda>i j. 1, \<lambda>i. 1)) zero_net ! 0) ! 0 ! 0 = - 1 / 100 \<and>
   bias (sgd_step 1 (\<lambda>l. (\<lambda>i j. 1, \<lambda>i. 1)) zero_net ! 0) ! 0 = - 1 / 100 \<and>
   reshape_784 [replicate 392 0, replicate 392 0] = Some [replicate 392 0 @ replicate 392 0] \<and>
   reshape_784 [[1, 2, 3]] = None \<and>
   softmax_cross_entropy [[0, ln 3]] [1] = Some [ln 4 - ln 3]"
proof -
  let ?s = "initial_state zero_net"
  let ?d = "script_state (\<lambda>l i j. 0)"
  let ?b = "([replicate 784 0], [0::real])"
  have f1: "?s = finish_init 784 ?s" by (simp add: finish_init_allocated initial_state_def)
  have f2: "?s = finish_init 784 ?d" by (simp add: finish_script_state)
  have ns: "net_shapes (net ?s)" using blank_valid(1) by (simp add: ready_def)
  have df: "deferred ?s = None" by (simp add: initial_state_def)
  have ne: "[blank_image] \<noteq> []" by simp
  have main: "(\<exists>ss. length ss = 10 \<and>
      training_loop zero_grad (\<lambda>k. [0]) [blank_image] [blank_image] s = Some (last (?s # ss)) \<and>
      net (ss ! 0) = zero_net \<and> cumulative_loss (ss ! 0) = ln 10 \<and>
      calls (ss ! 0) = [Forward 1, Loss 1, Backward, Step 1, Forward 1, Forward 1]) \<and>
     train_batch zero_grad ?b s =
       Some (?s\<lparr>cumulative_loss := ln 10, calls := [Forward 1, Loss 1, Backward, Step 1]\<rparr>) \<and>
     weight (sgd_step 1 (\<lambda>l. (\<lambda>i j. 1, \<lambda>i. 1)) zero_net ! 0) ! 0 ! 0 = - 1 / 100 \<and>
     bias (sgd_step 1 (\<lambda>l. (\<lambda>i j. 1, \<lambda>i. 1)) zero_net ! 0) ! 0 = - 1 / 100"
    if f: "?s = finish_init 784 s" for s
  proof -
    have h3: "deferred s = None \<or> [blank_image] \<noteq> []" by simp
    note t = training_loop_steps[where perms = "\<lambda>k. [0]" and ag = zero_grad and s = s
        and ?s0.0 = ?s and tr = "[blank_image]" and te = "[blank_image]",
        OF f ns h3 blank_valid(2,2,3)]
    from t obtain ss where ss: "length ss = epochs"
      "training_loop zero_grad (\<lambda>k. [0]) [blank_image] [blank_image] s = Some (last (?s # ss))"
      "\<forall>e<epochs. epoch zero_grad (\<lambda>k. [0]) [blank_image] [blank_image] e ((?s # ss) ! e) = Some (ss ! e) \<and>
                  epoch_steps zero_grad (\<lambda>k. [0]) [blank_image] [blank_image] ((?s # ss) ! e) (ss ! e)"
      by blast
    have "(0::nat) < epochs" by (simp add: epochs_def)
    with ss(3) have "epoch_steps zero_grad (\<lambda>k. [0]) [blank_image] [blank_image]
        ((?s # ss) ! 0) (ss ! 0)"
      by blast
    then have "epoch_steps zero_grad (\<lambda>k. [0]) [blank_image] [blank_image] ?s (ss ! 0)"
      by simp
    then have e0: "net (ss ! 0) = zero_net" "cumulative_loss (ss ! 0) = ln 10"
      "calls (ss ! 0) = [Forward 1, Loss 1, Backward, Step 1, Forward 1, Forward 1]"
      by (simp_all add: epoch_steps_def Let_def initial_state_def blank_batches sgd_step_zero_grad
          zero_net_loss training_calls_def evaluation_calls_def)
    from t have "train_batch zero_grad ?b s = Some (batch_steps zero_grad ?b ?s)"
      using blank_valid(4) by blast
    then have tb: "train_batch zero_grad ?b s =
       Some (?s\<lparr>cumulative_loss := ln 10, calls := [Forward 1, Loss 1, Backward, Step 1]\<rparr>)"
      by (simp add: batch_steps_def initial_state_def sgd_step_zero zero_net_loss zero_grad_def)
    from t have f: "\<forall>m g l i j. l < length (net ?s) \<and> i < length (weight (net ?s ! l)) \<and>
                    j < length (weight (net ?s ! l) ! i) \<longrightarrow>
          weight (sgd_step m g (net ?s) ! l) ! i ! j =
          weight (net ?s ! l) ! i ! j - 1 / 100 * (1 / real m * fst (g l) i j)"
      by blast
    have "weight (sgd_step 1 (\<lambda>l. (\<lambda>i j. 1, \<lambda>i. 1)) (net ?s) ! 0) ! 0 ! 0 =
          weight (net ?s ! 0) ! 0 ! 0 - 1 / 100 * (1 / real 1 * fst (\<lambda>i j. 1, \<lambda>i. 1) 0 0)"
      using f[THEN spec[where x = "1::nat"],
          THEN spec[where x = "\<lambda>l::nat. (\<lambda>(i::nat) (j::nat). 1::real, \<lambda>i::nat. 1::real)"],
          THEN spec[where x = "0::nat"], THEN spec[where x = "0::nat"], THEN spec[where x = "0::nat"]]
      by (simp add: initial_state_def zero_net_def net_init_def)
    then have w: "weight (sgd_step 1 (\<lambda>l. (\<lambda>i j. 1, \<lambda>i. 1)) zero_net ! 0) ! 0 ! 0 = - 1 / 100"
      by (simp add: initial_state_def zero_net_def net_init_def)
    from t have g: "\<forall>m g l i. l < length (net ?s) \<and> i < length (bias (net ?s ! l)) \<longrightarrow>
          bias (sgd_step m g (net ?s) ! l) ! i =
          bias (net ?s ! l) ! i - 1 / 100 * (1 / real m * snd (g l) i)"
      by blast
    have "bias (sgd_step 1 (\<lambda>l. (\<lambda>i j. 1, \<lambda>i. 1)) (net ?s) ! 0) ! 0 =
          bias (net ?s ! 0) ! 0 - 1 / 100 * (1 / real 1 * snd (\<lambda>i j. 1, \<lambda>i. 1) 0)"
      using g[THEN spec[where x = "1::nat"],
          THEN spec[where x = "\<lambda>l::nat. (\<lambda>(i::nat) (j::nat). 1::real, \<lambda>i::nat. 1::real)"],
          THEN spec[where x = "0::nat"], THEN spec[where x = "0::nat"]]
      by (simp add: initial_state_def zero_net_def net_init_def)
    then have w': "bias (sgd_step 1 (\<lambda>l. (\<lambda>i j. 1, \<lambda>i. 1)) zero_net ! 0) ! 0 = - 1 / 100"
      by (simp add: initial_state_def zero_net_def net_init_def)
    have "length ss = 10" using ss(1) by (simp add: epochs_def)
    then have ex: "\<exists>ss. length ss = 10 \<and>
        training_loop zero_grad (\<lambda>k. [0]) [blank_image] [blank_image] s = Some (last (?s # ss)) \<and>
        net (ss ! 0) = zero_net \<and> cumulative_loss (ss ! 0) = ln 10 \<and>
        calls (ss ! 0) = [Forward 1, Loss 1, Backward, Step 1, Forward 1, Forward 1]"
      using ss(2) e0 by blast
    show ?thesis using ex tb w w' by blast
  qed
  note m1 = main[OF f1] and m2 = main[OF f2]
  have h3: "deferred ?s = None \<or> [blank_image] \<noteq> []" by simp
  note t = training_loop_steps[where perms = "\<lambda>k. [0]" and ag = zero_grad and s = ?s
      and ?s0.0 = ?s and tr = "[blank_image]" and te = "[blank_image]",
      OF f1 ns h3 blank_valid(2,2,3)]
  note shape = t[THEN conjunct2, THEN conjunct2, THEN conjunct2, THEN conjunct2, THEN conjunct2,
      THEN conjunct1]
  from shape[THEN spec[where x = "[replicate 392 (0::real), replicate 392 0]"]]
  obtain d where d: "reshape_784 [replicate 392 0, replicate 392 0] = Some d"
    "concat d = concat [replicate 392 (0::real), replicate 392 0]"
    "list_all (\<lambda>r. length r = 784) d"
    by auto
  from d(2) have len: "length (concat d) = 784" by simp
  then obtain a rest where ar: "d = a # rest" by (cases d) auto
  then have "length a = 784" using d(3) by simp
  then have "length (concat rest) = 0" using len ar by simp
  then have "rest = []" using d(3) ar by (cases rest) auto
  then have "d = [replicate 392 0 @ replicate 392 0]" using d(2) ar by simp
  with d(1) have r1: "reshape_784 [replicate 392 0, replicate 392 0] = Some [replicate 392 0 @ replicate 392 0]"
    by simp
  from shape[THEN spec[where x = "[[1, 2, 3::real]]"]]
  have r2: "reshape_784 [[1, 2, 3]] = None" by simp
  note entropy = t[THEN conjunct2, THEN conjunct2, THEN conjunct2, THEN conjunct2, THEN conjunct2,
      THEN conjunct2]
  from entropy[THEN spec[where x = "[0, ln 3]"], THEN spec[where x = 1]]
  have ce: "softmax_cross_entropy [[0, ln 3]] [1] = Some [ln 4 - ln 3]" by simp
  show ?thesis using f1 f2 ns df ne blank_valid(2,3,4) m1 m2 r1 r2 ce by blast
qed

text \<open>
  The claim as stated, that the loss computed for a batch is a scalar, fails: for a batch
  of two samples the loss has two values, here \<open>ln 10\<close> each under the zero network. It
  becomes a scalar only where the loop sums it for the accumulator.
\<close>

theorem loss_not_scalar:
  "batch_loss zero_net ([replicate 784 0, replicate 784 0], [0, 1]) = [ln 10, ln 10] \<and>
   softmax_cross_entropy [replicate 10 0, replicate 10 0] [0, 1] = Some [ln 10, ln 10] \<and>
   length (batch_loss zero_net ([replicate 784 0, replicate 784 0], [0, 1])) = 2"
proof -
  have v: "valid_batch ([replicate 784 0, replicate 784 0], [0, 1])"
    by (simp add: valid_batch_def has_shape_def)
  have "[replicate 10 0, replicate 10 (0::real)] = replicate 2 (replicate 10 0)"
    by (simp add: numeral_2_eq_2)
  then have "softmax_cross_entropy [replicate 10 0, replicate 10 0] [0, 1] = Some (replicate 2 (ln 10))"
    using zero_scores_loss[of "[0, 1]" 2] by simp
  then show ?thesis using zero_net_batch_loss[OF v] by (simp add: numeral_2_eq_2)
qed

text \<open>
  Claim C4. The training loop is entered in a state \<open>s\<close>, and \<open>s0\<close> is that state
  once the first batch has finished an initialisation that was deferred (\<open>s\<close> itself
  when the parameters are allocated already). On valid data with a training set of
  \<open>num_examples\<close> samples, the training loop prints one line per epoch, ten in all. The line of epoch \<open>e\<close> holds the epoch
  number \<open>e\<close>, the mean of the per-sample losses of the epoch, and the accuracy of the
  network as the epoch leaves it over the whole training set and over the whole test
  set. The accuracy is the share of the samples whose label is the argmax of their
  scores, the first position that holds the largest score: \<open>nd.argmax\<close> returns that
  position for every row of scores, and the cast to \<open>int32\<close> returns an integer label
  as it is. The two evaluations are made after the epoch's training batches, and
  \<open>evaluate_accuracy\<close> returns this accuracy for both loaders.
\<close>

theorem training_loop_reports:
  assumes "s0 = finish_init 784 s" and "net_shapes (net s0)"
    and "valid_dataset tr" and "valid_dataset te"
    and "\<And>k. mset (perms k) = mset [0..<length tr]"
    and "length tr = num_examples"
  shows "\<exists>ss. length ss = epochs \<and>
        training_loop ag perms tr te s = Some (last (s0 # ss)) \<and>
        console (last (s0 # ss)) = console s @ map2 (report_of tr te) [0..<epochs] ss \<and>
        (\<forall>e<epochs. epoch ag perms tr te e ((s0 # ss) ! e) = Some (ss ! e) \<and>
                     epoch_report ag perms tr te e ((s0 # ss) ! e) (ss ! e)) \<and>
        (\<exists>s1 s2. evaluate_accuracy perms (test_data te) s0 = Some (accuracy (net s0) te, s1) \<and>
                 evaluate_accuracy perms (train_data tr) s0 = Some (accuracy (net s0) tr, s2)) \<and>
        (\<forall>v. v \<noteq> [] \<longrightarrow> (\<exists>i. argmax v = real i \<and> first_max v i)) \<and>
        (\<forall>k. astype_int32 (real_of_int k) = k)"
proof -
  have r: "ready s0" using assms(1,2) by (simp add: ready_def finish_init_fields)
  have "tr \<noteq> []" using assms(6) by (auto simp: num_examples_def)
  then have start: "training_loop ag perms tr te s = training_loop ag perms tr te s0"
    unfolding assms(1) using assms(3,5) by (intro training_loop_finish[where perms = perms]) simp_all
  have c: "console s0 = console s" by (simp add: assms(1) finish_init_fields)
  from training_loop_runs[where perms = perms and ag = ag, OF r assms(3-5)] obtain ss
    where ss: "length ss = 10" "training_loop ag perms tr te s0 = Some (last (s0 # ss))"
      "\<forall>e<10. ready ((s0 # ss) ! e) \<and>
         epoch ag perms tr te e ((s0 # ss) ! e) = Some (ss ! e)"
      "console (last (s0 # ss)) = console s0 @ map2 (report_of tr te) [0..<10] ss"
    by blast
  have 1: "epoch_report ag perms tr te e ((s0 # ss) ! e) (ss ! e)" if "e < 10" for e
    using ss(3) that epoch_report_runs[where perms = perms, OF _ assms(3,4,5,6)] by blast
  have 2: "\<exists>s1. evaluate_accuracy perms (test_data te) s0 = Some (accuracy (net s0) te, s1)"
    using evaluate_accuracy_test[OF r assms(4)] accuracy_over_transformed[OF assms(2,4)] by simp
  have 3: "\<exists>s2. evaluate_accuracy perms (train_data tr) s0 = Some (accuracy (net s0) tr, s2)"
    using evaluate_accuracy_train[where perms = perms, OF r assms(3) assms(5)]
      accuracy_over_transformed[OF assms(2,3)] by simp
  have 4: "\<forall>v. v \<noteq> [] \<longrightarrow> (\<exists>i. argmax v = real i \<and> first_max v i)"
    using argmax_first_max by blast
  have 5: "\<forall>k. astype_int32 (real_of_int k) = k" by (simp add: astype_int32_of_int)
  have 6: "training_loop ag perms tr te s = Some (last (s0 # ss))" using start ss(2) by simp
  have 7: "console (last (s0 # ss)) = console s @ map2 (report_of tr te) [0..<epochs] ss"
    using ss(4) c by (simp add: epochs_def)
  have 8: "\<forall>e<epochs. epoch ag perms tr te e ((s0 # ss) ! e) = Some (ss ! e) \<and>
                     epoch_report ag perms tr te e ((s0 # ss) ! e) (ss ! e)"
    using ss(3) 1 by (simp add: epochs_def)
  have 9: "length ss = epochs" using ss(1) by (simp add: epochs_def)
  show ?thesis using 9 6 7 8 2 3 4 5 by blast
qed

text \<open>
  The theorem at a training set of 60000 blank images labelled 0, the test set of a black
  image labelled 0 and two white images labelled 7 and 3, and the network that scores
  class 7 by the brightness of the image. Whatever gradients automatic differentiation
  returns, the console holds the epoch numbers 0 to 9. Before any training the accuracy
  is 1 on the training set and two thirds on the test set: the black image scores zero
  everywhere, so that its argmax is the first position, 0; a white image scores
  3211264 at position 7, which is its argmax.
\<close>

theorem training_loop_reports_witness:
  "initial_state bright_net = finish_init 784 (initial_state bright_net) \<and>
   net_shapes (net (initial_state bright_net)) \<and> valid_dataset mnist_sized \<and>
   valid_dataset two_tone \<and>
   mset [0..<60000] = mset [0..<length mnist_sized] \<and>
   length mnist_sized = num_examples \<and>
   (\<forall>ag. \<exists>s'. training_loop ag (\<lambda>k. [0..<60000]) mnist_sized two_tone (initial_state bright_net) = Some s' \<and>
      map epoch_no (console s') = [0, 1, 2, 3, 4, 5, 6, 7, 8, 9]) \<and>
   (\<exists>s1. evaluate_accuracy (\<lambda>k. [0..<60000]) (test_data two_tone) (initial_state bright_net)
           = Some (Float (2 / 3), s1)) \<and>
   (\<exists>s2. evaluate_accuracy (\<lambda>k. [0..<60000]) (train_data mnist_sized) (initial_state bright_net)
           = Some (Float 1, s2)) \<and>
   score bright_net (fst (transform (replicate 784 255) 7)) = [0, 0, 0, 0, 0, 0, 0, 3211264, 0, 0] \<and>
   argmax [0, 0, 0, 0, 0, 0, 0, 3211264, 0, 0] = 7 \<and>
   first_max [0, 0, 0, 0, 0, 0, 0, 3211264, 0, 0] 7 \<and>
   score bright_net (fst (transform (replicate 784 0) 0)) = [0, 0, 0, 0, 0, 0, 0, 0, 0, 0] \<and>
   argmax [0, 0, 0, 0, 0, 0, 0, 0, 0, 0] = 0 \<and>
   first_max [0, 0, 0, 0, 0, 0, 0, 0, 0, 0] 0 \<and>
   astype_int32 (real_of_int 7) = 7"
proof -
  let ?s = "initial_state bright_net"
  let ?p = "\<lambda>k::nat. [0..<60000]"
  have f: "?s = finish_init 784 ?s" by (simp add: finish_init_allocated initial_state_def)
  have a: "net_shapes (net ?s)" by (simp add: initial_state_def net_shapes_bright_net)
  have b: "valid_dataset mnist_sized" unfolding mnist_sized_def by (rule valid_dataset_blank)
  have c: "valid_dataset two_tone" by (rule two_tone_valid)
  have d: "mset [0..<60000] = mset [0..<length mnist_sized]" by (simp add: mnist_sized_def)
  have e: "length mnist_sized = num_examples" by (simp add: mnist_sized_def num_examples_def)
  note t = training_loop_reports[where perms = ?p and s = ?s and ?s0.0 = ?s, OF f a b c d e]
  have loop: "\<exists>s'. training_loop ag ?p mnist_sized two_tone ?s = Some s' \<and>
      map epoch_no (console s') = [0, 1, 2, 3, 4, 5, 6, 7, 8, 9]" for ag
  proof -
    from t[of ag] obtain ss where ss: "length ss = epochs"
      "training_loop ag ?p mnist_sized two_tone ?s = Some (last (?s # ss))"
      "console (last (?s # ss)) = console ?s @ map2 (report_of mnist_sized two_tone) [0..<epochs] ss"
      by blast
    have len: "length ss = 10" using ss(1) by (simp add: epochs_def)
    have con: "console (last (?s # ss)) = map2 (report_of mnist_sized two_tone) [0..<10] ss"
      using ss(3) by (simp add: initial_state_def epochs_def)
    have "map epoch_no (console (last (?s # ss))) = [0, 1, 2, 3, 4, 5, 6, 7, 8, 9]"
      unfolding con using map_epoch_no_reports[of "[0..<10]" ss] len by (simp add: upt_10)
    then show ?thesis using ss(2) by (intro exI[of _ "last (?s # ss)"] conjI)
  qed
  from t[of zero_grad] obtain s1 s2 where
    "evaluate_accuracy ?p (test_data two_tone) ?s = Some (accuracy (net ?s) two_tone, s1)"
    "evaluate_accuracy ?p (train_data mnist_sized) ?s = Some (accuracy (net ?s) mnist_sized, s2)"
    by blast
  then have ev: "\<exists>s1. evaluate_accuracy ?p (test_data two_tone) ?s = Some (Float (2 / 3), s1)"
    "\<exists>s2. evaluate_accuracy ?p (train_data mnist_sized) ?s = Some (Float 1, s2)"
    by (simp_all add: initial_state_def bright_net_accuracy)
  have sc: "score bright_net (fst (transform (replicate 784 255) 7)) = [0, 0, 0, 0, 0, 0, 0, 3211264, 0, 0]"
    "score bright_net (fst (transform (replicate 784 0) 0)) = [0, 0, 0, 0, 0, 0, 0, 0, 0, 0]"
    by (simp_all add: transform_def bright_net_score)
  from t[of zero_grad] have am: "\<forall>v. v \<noteq> [] \<longrightarrow> (\<exists>i. argmax v = real i \<and> first_max v i)"
    and ai: "\<forall>k. astype_int32 (real_of_int k) = k"
    by blast+
  have fm: "first_max [0, 0, 0, 0, 0, 0, 0, 3211264, 0, 0] 7"
    "first_max [0, 0, 0, 0, 0, 0, 0, 0, 0, 0] 0"
    by (simp_all add: first_max_def)
  have "\<exists>i. argmax [0, 0, 0, 0, 0, 0, 0, 3211264, 0, 0] = real i \<and>
            first_max [0, 0, 0, 0, 0, 0, 0, 3211264, 0, 0] i"
    using am by simp
  then have a7: "argmax [0, 0, 0, 0, 0, 0, 0, 3211264, 0, 0] = 7"
    using first_max_unique[OF fm(1)] by auto
  have "\<exists>i. argmax [0, 0, 0, 0, 0, 0, 0, 0, 0, 0] = real i \<and>
            first_max [0, 0, 0, 0, 0, 0, 0, 0, 0, 0] i"
    using am by simp
  then have a0: "argmax [0, 0, 0, 0, 0, 0, 0, 0, 0, 0] = 0"
    using first_max_unique[OF fm(2)] by auto
  have i7: "astype_int32 (real_of_int 7) = 7" using ai by blast
  show ?thesis using f a b c d e loop ev sc a7 a0 fm i7 by blast
qed

text \<open>
  Claim C5, as the code has it. Whenever \<open>evaluate_accuracy\<close> returns, over any data
  iterator and with any network, the value returned lies in \<open>[0, 1]\<close> if the iterator
  has yielded at least one label, and is not-a-number if it has yielded none.
\<close>

theorem evaluate_accuracy_range:
  assumes "evaluate_accuracy perms it s = Some (a, s')"
  shows "\<exists>bs s1. iterate perms it s = Some (bs, s1) \<and>
          (if list_all (\<lambda>b. snd b = []) bs then a = NaN
           else \<exists>r. a = Float r \<and> 0 \<le> r \<and> r \<le> 1)"
  using assms by (rule evaluate_accuracy_frame(2))

text \<open>
  The theorem at the test-data loader over one blank image and the zero network: the
  accuracy is 1.
\<close>

theorem evaluate_accuracy_range_witness:
  "evaluate_accuracy (\<lambda>k. [0]) (test_data [blank_image]) (initial_state zero_net) =
     Some (Float 1, (initial_state zero_net)\<lparr>calls := [Forward 1]\<rparr>) \<and>
   iterate (\<lambda>k. [0]) (test_data [blank_image]) (initial_state zero_net) =
     Some ([([replicate 784 0], [0])], initial_state zero_net) \<and>
   (\<exists>r. Float 1 = Float r \<and> 0 \<le> r \<and> r \<le> 1)"
proof -
  let ?s = "initial_state zero_net"
  have ev: "evaluate_accuracy (\<lambda>k. [0]) (test_data [blank_image]) ?s =
     Some (Float 1, ?s\<lparr>calls := [Forward 1]\<rparr>)"
    using evaluate_accuracy_test[OF blank_valid(1,2), of "\<lambda>k. [0]"]
    by (simp add: blank_batches initial_state_def zero_net_accuracy evaluation_calls_def)
  from evaluate_accuracy_range[OF ev] obtain bs s1
    where it: "iterate (\<lambda>k. [0]) (test_data [blank_image]) ?s = Some (bs, s1)"
      and r: "if list_all (\<lambda>b. snd b = []) bs then Float 1 = NaN
              else \<exists>r. Float 1 = Float r \<and> 0 \<le> r \<and> r \<le> 1"
    by blast
  have "\<exists>r. Float 1 = Float r \<and> (0::real) \<le> r \<and> r \<le> 1" using r by (simp split: if_splits)
  moreover have "DataLoader_iter (test_data [blank_image]) [] = Some [([replicate 784 0], [0])]"
    by (simp add: DataLoader_iter_def test_data_def sampler_def batch_size_def load_batch_def
        getitem_def transform_def batchify_def blank_image_def)
  then have "iterate (\<lambda>k. [0]) (test_data [blank_image]) ?s = Some ([([replicate 784 0], [0])], ?s)"
    by (simp add: iterate_def test_data_def)
  ultimately show ?thesis using ev by blast
qed

text \<open>
  The claim as stated, for every data iterator, fails at an iterator that yields nothing:
  over an empty test set the metric has seen no sample, and the value returned is
  not-a-number, which is not in \<open>[0, 1]\<close>.
\<close>

theorem evaluate_accuracy_nan:
  "evaluate_accuracy (\<lambda>k. []) (test_data []) (initial_state zero_net) =
     Some (NaN, initial_state zero_net)"
  by (simp add: evaluate_accuracy_def iterate_def DataLoader_iter_def test_data_def sampler_def
      Accuracy_get_def Accuracy_init_def)

text \<open>
  Claim C8, as the code has it. The training-data loader (\<open>shuffle=True\<close>) presents the
  transformed samples in the order of the permutation drawn for the pass, so as a
  rearrangement of the dataset; the test-data loader (\<open>shuffle=False\<close>) presents them
  in dataset order. Both yield batches of images with as many labels, none empty and
  none larger than \<open>batch_size\<close>.
\<close>

theorem loaders_order:
  assumes "list_all (\<lambda>s. length (fst s) = k) ds" and "mset perm = mset [0..<length ds]"
  shows "\<exists>tr te. DataLoader_iter (train_data ds) perm = Some tr \<and>
           concat (map samples_of tr) = map (\<lambda>i. transformed ds ! i) perm \<and>
           mset (concat (map samples_of tr)) = mset (transformed ds) \<and>
           DataLoader_iter (test_data ds) perm = Some te \<and>
           concat (map samples_of te) = transformed ds \<and>
           list_all (\<lambda>b. 0 < length (snd b) \<and> length (snd b) \<le> batch_size \<and>
                          length (fst b) = length (snd b)) (tr @ te)"
proof -
  let ?tr = "map (batch_of ds) (batch_sampler batch_size [] perm)"
  let ?te = "map (batch_of ds) (batch_sampler batch_size [] [0..<length ds])"
  have tr: "DataLoader_iter (train_data ds) perm = Some ?tr"
    using DataLoader_iter_valid[of "train_data ds" perm k] assms perm_bound[OF assms(2)]
    by (simp add: train_data_def sampler_def)
  have te: "DataLoader_iter (test_data ds) perm = Some ?te"
    using DataLoader_iter_valid[of "test_data ds" perm k] assms
    by (simp add: test_data_def sampler_def)
  have c1: "concat (map samples_of ?tr) = map (\<lambda>i. transformed ds ! i) perm"
    using concat_samples[of ds batch_size perm] by (simp add: comp_def)
  have "length (transformed ds) = length ds" by (simp add: transformed_def)
  then have c2: "map (\<lambda>i. transformed ds ! i) [0..<length ds] = transformed ds"
    by (metis map_nth)
  have c3: "concat (map samples_of ?te) = transformed ds"
    using concat_samples[of ds batch_size "[0..<length ds]"] c2 by (simp add: comp_def)
  have "mset (map (\<lambda>i. transformed ds ! i) perm) =
        mset (map (\<lambda>i. transformed ds ! i) [0..<length ds])"
    using assms(2) by (metis mset_map)
  then have c4: "mset (concat (map samples_of ?tr)) = mset (transformed ds)"
    using c1 c2 by simp
  have sz: "0 < length (snd (batch_of ds b)) \<and> length (snd (batch_of ds b)) \<le> batch_size \<and>
            length (fst (batch_of ds b)) = length (snd (batch_of ds b))"
    if "b \<in> set (batch_sampler batch_size [] idxs)" for b idxs
    using that batch_sampler_nonempty[OF that] batch_sampler_le[OF that]
    by (simp add: batch_of_def batch_size_def)
  have c5: "list_all (\<lambda>b. 0 < length (snd b) \<and> length (snd b) \<le> batch_size \<and>
                           length (fst b) = length (snd b)) (?tr @ ?te)"
    using sz by (auto simp: list_all_iff)
  show ?thesis using tr te c1 c3 c4 c5 by blast
qed

text \<open>
  The theorem at a dataset of two one-pixel images and the permutation that swaps them.
\<close>

theorem loaders_order_witness:
  "list_all (\<lambda>s. length (fst s) = 1) [([0], 0), ([255], 1)] \<and>
   mset [1, 0] = mset [0..<length [([0::int], 0::int), ([255], 1)]] \<and>
   (\<exists>tr te. DataLoader_iter (train_data [([0], 0), ([255], 1)]) [1, 0] = Some tr \<and>
      concat (map samples_of tr) = [([1], 1), ([0], 0)] \<and>
      DataLoader_iter (test_data [([0], 0), ([255], 1)]) [1, 0] = Some te \<and>
      concat (map samples_of te) = [([0], 0), ([1], 1)])"
proof -
  have a: "list_all (\<lambda>s. length (fst s) = 1) [([0], 0), ([255], 1 :: int)]" by simp
  have b: "mset [1, 0] = mset [0..<length [([0::int], 0::int), ([255], 1)]]"
    by (simp add: upt_rec)
  have c: "transformed [([0], 0), ([255], 1)] = [([0], 0), ([1], 1)]"
    by (simp add: transformed_def transform_def)
  from loaders_order[OF a b] show ?thesis using a b c by auto
qed

text \<open>
  The claim as stated, that the test-data loader too presents its samples in shuffled
  order, fails: whatever permutation is drawn (here the swap), the test-data loader
  yields the two samples in dataset order, where the training-data loader yields them
  swapped.
\<close>

theorem test_loader_not_shuffled:
  "DataLoader_iter (test_data [([0], 0), ([255], 1)]) [1, 0] = Some [([[0], [1]], [0, 1])] \<and>
   DataLoader_iter (train_data [([0], 0), ([255], 1)]) [1, 0] = Some [([[1], [0]], [1, 0])] \<and>
   sampler (test_data [([0], 0), ([255], 1)]) [1, 0] \<noteq> [1, 0]"
  by (simp add: DataLoader_iter_def test_data_def train_data_def sampler_def batch_size_def
      load_batch_def getitem_def transform_def batchify_def upt_rec)




text \<open>
  Claim C10. For an image whose raw pixel values lie in \<open>[0, 255]\<close>, \<open>transform\<close>
  returns each pixel divided by 255, a value in \<open>[0, 1]\<close>, together with the label as a
  floating-point number. So every row of every batch that a data loader over such
  images yields, which is every input the training loop and the evaluation give to the
  network, has its values in \<open>[0, 1]\<close>.
\<close>

theorem transform_scaled:
  "(pixels_in_range data \<longrightarrow>
      transform data label = (map (\<lambda>p. real_of_int p / 255) data, real_of_int label) \<and>
      scaled (fst (transform data label))) \<and>
   (list_all (\<lambda>s. pixels_in_range (fst s)) (dataset dl) \<and> DataLoader_iter dl perm = Some bs \<longrightarrow>
      list_all (\<lambda>b. list_all scaled (fst b)) bs)"
proof (intro conjI impI)
  show "transform data label = (map (\<lambda>p. real_of_int p / 255) data, real_of_int label)"
    by (simp add: transform_def)
  show "scaled (fst (transform data label))" if "pixels_in_range data"
    using that by (rule scaled_transform)
  show "list_all (\<lambda>b. list_all scaled (fst b)) bs"
    if h: "list_all (\<lambda>s. pixels_in_range (fst s)) (dataset dl) \<and> DataLoader_iter dl perm = Some bs"
  proof -
    have "scaled row" if "b \<in> set bs" "row \<in> set (fst b)" for b row
    proof -
      from DataLoader_iter_rows[OF conjunct2[OF h] that]
      obtain s where "s \<in> set (dataset dl)" "row = fst (transform (fst s) (snd s))" by blast
      then show ?thesis using h scaled_transform by (auto simp: list_all_iff)
    qed
    then show ?thesis by (simp add: list_all_iff)
  qed
qed

text \<open>
  The theorem at an image with the pixels 0, 128 and 255 and the label 7, and at the
  test-data loader over one two-pixel image.
\<close>

theorem transform_scaled_witness:
  "pixels_in_range [0, 128, 255] \<and>
   transform [0, 128, 255] 7 = ([0, 128 / 255, 1], 7) \<and>
   scaled (fst (transform [0, 128, 255] 7)) \<and>
   list_all (\<lambda>s. pixels_in_range (fst s)) (dataset (test_data [([0, 255], 3)])) \<and>
   DataLoader_iter (test_data [([0, 255], 3)]) [] = Some [([[0, 1]], [3])] \<and>
   list_all (\<lambda>b. list_all scaled (fst b)) [([[0, 1]], [3])]"
proof -
  have a: "pixels_in_range [0, 128, 255]" by (simp add: pixels_in_range_def)
  have b: "list_all (\<lambda>s. pixels_in_range (fst s)) (dataset (test_data [([0, 255], 3)]))"
    by (simp add: pixels_in_range_def test_data_def)
  have c: "DataLoader_iter (test_data [([0, 255], 3)]) [] = Some [([[0, 1]], [3])]"
    by (simp add: DataLoader_iter_def test_data_def sampler_def batch_size_def
        load_batch_def getitem_def transform_def batchify_def)
  from transform_scaled[of "[0, 128, 255]" 7 "test_data [([0, 255], 3)]" "[]" "[([[0, 1]], [3])]"] a b c
  show ?thesis by auto
qed

end
